theory Spec2Isabelle
  imports Complex_Main "HOL-Library.Word" "HOL-Library.Sublist"
begin

section \<open>Strings of the description\<close>

text \<open>
  The description is a JavaScript string. It is modelled as a \<open>string\<close> whose characters
  are the code units U+0000 to U+00FF (one \<open>char\<close> per code unit); code units above
  U+00FF are outside the model. \<open>toLowerCase\<close> maps A-Z and the Latin-1 capitals
  U+00C0 to U+00DE (U+00D7, the multiplication sign, apart) to the letter 32 places on
  and leaves every other code unit of that range alone.
\<close>

definition toLowerChar :: "char \<Rightarrow> char" where
  "toLowerChar c =
     (let n = (of_char c :: nat)
      in if (65 \<le> n \<and> n \<le> 90) \<or> (192 \<le> n \<and> n \<le> 222 \<and> n \<noteq> 215)
         then char_of (n + 32) else c)"

definition toLowerCase :: "string \<Rightarrow> string" where
  "toLowerCase s = map toLowerChar s"

text \<open>\<open>String.prototype.includes\<close>: the pattern occurs somewhere as a contiguous run.\<close>

fun includesStr :: "string \<Rightarrow> string \<Rightarrow> bool" where
  "includesStr [] pat = (pat = [])"
| "includesStr (c # cs) pat = (prefix pat (c # cs) \<or> includesStr cs pat)"

subsection \<open>The regular expression \<open>/(\d+)\s*bpm/\<close>\<close>

text \<open>
  \<open>\d\<close> is an ASCII digit; \<open>\s\<close> is, among the code units modelled, TAB, LF, VT, FF, CR,
  SPACE and the no-break space U+00A0.
\<close>

definition isDigit :: "char \<Rightarrow> bool" where
  "isDigit c = (c \<in> set ''0123456789'')"

definition isSpace :: "char \<Rightarrow> bool" where
  "isSpace c = ((of_char c :: nat) \<in> {9, 10, 11, 12, 13, 32, 160})"

text \<open>
  \<open>\s*bpm\<close> tried at the head of \<open>r\<close>: the greedy star first takes every white-space
  character and gives them back one at a time (backtracking).
\<close>

definition matchSpacesBpm :: "string \<Rightarrow> bool" where
  "matchSpacesBpm r =
     list_ex (\<lambda>w. prefix ''bpm'' (drop w r)) (rev [0..<Suc (length (takeWhile isSpace r))])"

text \<open>
  The whole expression tried at the head of \<open>s\<close>: \<open>\d+\<close> first takes every digit and gives
  them back one at a time, down to one digit. The result is capture group 1.
\<close>

definition matchBpmAt :: "string \<Rightarrow> string option" where
  "matchBpmAt s =
     map_option (\<lambda>k. take k s)
       (List.find (\<lambda>k. matchSpacesBpm (drop k s)) (rev [1..<Suc (length (takeWhile isDigit s))]))"

text \<open>\<open>lowerDesc.match(...)\<close> without the g flag: the match at the leftmost start position.\<close>

fun bpmMatch :: "string \<Rightarrow> string option" where
  "bpmMatch [] = matchBpmAt []"
| "bpmMatch (c # cs) =
     (case matchBpmAt (c # cs) of Some g \<Rightarrow> Some g | None \<Rightarrow> bpmMatch cs)"

text \<open>
  \<open>parseInt10 g\<close> is the integer that \<open>parseInt(g, 10)\<close> reads from a string of digits.
  The number \<open>parseInt\<close> returns is the double of that integer: the integer itself up to
  \<open>2 ^ 53\<close>, a rounded value beyond, \<open>Infinity\<close> for very long strings. The model keeps the
  integer, so it is the tempo of the code only for tokens up to \<open>2 ^ 53\<close>
  (\<open>maxExactInteger\<close>), and what is stated of the tempo of a token carries that bound.
\<close>

definition maxExactInteger :: nat where
  "maxExactInteger = 9007199254740992"

definition digitValue :: "char \<Rightarrow> nat" where
  "digitValue c = of_char c - 48"

definition parseInt10 :: "string \<Rightarrow> nat" where
  "parseInt10 g = foldl (\<lambda>acc c. 10 * acc + digitValue c) 0 g"

section \<open>Parameter extraction (generateAudioPreview, lines 34-71)\<close>

text \<open>Every function below takes \<open>lowerDesc\<close>, the lower-cased description.\<close>

definition bpm :: "string \<Rightarrow> nat" where
  "bpm lowerDesc =
     (case bpmMatch lowerDesc of
        Some g \<Rightarrow> parseInt10 g
      | None \<Rightarrow>
          (let b = 120;
               b = (if includesStr lowerDesc ''slow'' then 80 else b);
               b = (if includesStr lowerDesc ''fast'' \<or> includesStr lowerDesc ''upbeat''
                    then 140 else b)
           in b))"

definition scale :: "string \<Rightarrow> nat list" where
  "scale lowerDesc =
     (let s = [0, 2, 4, 5, 7, 9, 11];
          s = (if includesStr lowerDesc ''minor'' then [0, 2, 3, 5, 7, 8, 10] else s);
          s = (if includesStr lowerDesc ''dissonant'' \<or> includesStr lowerDesc ''atonal''
               then [0, 1, 4, 5, 8, 9] else s);
          s = (if includesStr lowerDesc ''pentatonic'' then [0, 2, 4, 7, 9] else s)
      in s)"

definition isMinor :: "string \<Rightarrow> bool" where
  "isMinor lowerDesc = includesStr lowerDesc ''minor''"

definition chordProgression :: "string \<Rightarrow> nat list list" where
  "chordProgression lowerDesc =
     (if isMinor lowerDesc then [[0, 3, 7], [8, 0, 3], [3, 7, 10], [10, 2, 5]]
      else [[0, 4, 7], [7, 11, 2], [9, 0, 4], [5, 9, 0]])"

definition enableReverb :: "string \<Rightarrow> bool" where
  "enableReverb lowerDesc = includesStr lowerDesc ''reverb''"

definition enableDelay :: "string \<Rightarrow> bool" where
  "enableDelay lowerDesc = includesStr lowerDesc ''delay''"

definition enableDrums :: "string \<Rightarrow> bool" where
  "enableDrums lowerDesc =
     (includesStr lowerDesc ''drum'' \<or> includesStr lowerDesc ''beat''
      \<or> includesStr lowerDesc ''percussion'' \<or> includesStr lowerDesc ''heartbeat'')"

definition enableHarmony :: "string \<Rightarrow> bool" where
  "enableHarmony lowerDesc =
     (includesStr lowerDesc ''pad'' \<or> includesStr lowerDesc ''string''
      \<or> includesStr lowerDesc ''choir'' \<or> includesStr lowerDesc ''chord'')"

definition enableBass :: "string \<Rightarrow> bool" where
  "enableBass lowerDesc =
     (includesStr lowerDesc ''bass'' \<or> includesStr lowerDesc ''drone''
      \<or> includesStr lowerDesc ''rumble'')"

definition enableMelody :: "string \<Rightarrow> bool" where
  "enableMelody lowerDesc =
     (includesStr lowerDesc ''melody'' \<or> includesStr lowerDesc ''piano''
      \<or> includesStr lowerDesc ''bell'' \<or> includesStr lowerDesc ''music box''
      \<or> includesStr lowerDesc ''glockenspiel'')"

subsection \<open>The tempo token of the specification\<close>

text \<open>
  ``A number immediately followed by bpm'': \<open>bpmTokenAt s ds\<close> says that \<open>s\<close> starts with the
  digits \<open>ds\<close>, then white space (possibly none), then bpm. As \<open>ds\<close> is followed by a
  character that is no digit, it is the whole run of digits at the head of \<open>s\<close>.
  \<open>noTokenBefore t n\<close> is the executable test that no match starts at a position below \<open>n\<close>.
\<close>

definition bpmTokenAt :: "string \<Rightarrow> string \<Rightarrow> bool" where
  "bpmTokenAt s ds \<longleftrightarrow>
     ds \<noteq> [] \<and> list_all isDigit ds
     \<and> (\<exists>ws post. list_all isSpace ws \<and> s = ds @ ws @ ''bpm'' @ post)"

definition noTokenBefore :: "string \<Rightarrow> nat \<Rightarrow> bool" where
  "noTokenBefore t n = list_all (\<lambda>i. matchBpmAt (drop i t) = None) [0..<n]"

text \<open>The example description of the specification.\<close>

definition exampleDescription :: string where
  "exampleDescription = ''A very slow, dragging 60 bpm tempo in a dissonant, atonal scale... music box with heavy reverb and delay... low rumbling bass synth drones... sparse piano chords. No drums...''"

section \<open>The scheduled audio graph\<close>

text \<open>
  JavaScript numbers are modelled as reals, so rounding of the double arithmetic on times
  and frequencies is outside the model; \<open>Math.pow(2, x)\<close> is \<open>2 powr x\<close>. What the Web
  Audio engine computes from the graph in \<open>startRendering\<close> is no code of this repository:
  the model of \<open>generateAudioPreview\<close> ends with the graph handed to the renderer.

  \<open>Math.random()\<close> is an explicit source: \<open>rng k\<close> is the value of the \<open>k\<close>-th call of a
  run, and every function that draws takes the number of calls made so far and returns
  the new count.
\<close>

type_synonym random = "nat \<Rightarrow> real"

datatype error = TypeError | RangeError

datatype OscillatorType = sine | square | sawtooth | triangle

definition duration :: nat where
  "duration = 10"

definition sampleRate :: nat where
  "sampleRate = 44100"

definition baseFreq :: real where
  "baseFreq = 220"

text \<open>
  \<open>beatDuration = 60 / bpm\<close>. For \<open>bpm = 0\<close> JavaScript gives \<open>Infinity\<close>, which is no real:
  every use below treats \<open>bpm = 0\<close> apart.
\<close>

definition beatDuration :: "nat \<Rightarrow> real" where
  "beatDuration b = 60 / real b"

text \<open>
  The number of runs of \<open>for (let i = 0; i < x; i++)\<close> for a real bound \<open>x\<close>: the naturals
  below \<open>x\<close>. The bounds \<open>duration / beatDuration\<close> are exact quotients here; the code
  computes them in double arithmetic, and where the exact quotient is a whole number the
  rounded one can lie just above it, so that the code runs one step more than the model
  (for instance at 366 bpm in the drums and at 183 bpm in the melody). Nothing stated
  below depends on the number of steps, except at 120 bpm, where both quotients are exact.
\<close>

definition loopCount :: "real \<Rightarrow> nat" where
  "loopCount x = nat \<lceil>x\<rceil>"

subsection \<open>Reverb impulse response (lines 20-29)\<close>

definition impulseChannel :: "random \<Rightarrow> nat \<Rightarrow> real list" where
  "impulseChannel rng k =
     map (\<lambda>j. (rng (k + j) * 2 - 1) * (1 - real j / real (2 * sampleRate)) ^ 2)
       [0..<2 * sampleRate]"

definition createImpulse :: "random \<Rightarrow> nat \<Rightarrow> real list list \<times> nat" where
  "createImpulse rng k =
     ([impulseChannel rng k, impulseChannel rng (k + 2 * sampleRate)],
      k + 2 * (2 * sampleRate))"

subsection \<open>Percussion layer (createDrums, lines 76-116)\<close>

text \<open>
  \<open>Kick time\<close>: an oscillator from 150 Hz ramping to 0.01 Hz and an envelope from 1 to 0.01,
  both by \<open>time + 0.1\<close>, stopped at \<open>time + 0.15\<close>. \<open>Snare time noise\<close>: a buffer source playing
  \<open>noise\<close> through a 1500 Hz high-pass filter and an envelope from 0.8 to 0.01 by
  \<open>time + 0.15\<close>. The noise buffer has \<open>sampleRate * 0.2 = 8820\<close> samples.
\<close>

datatype DrumHit = Kick real | Snare real "real list"

definition snareLength :: nat where
  "snareLength = 8820"

definition drumBeat :: "random \<Rightarrow> string \<Rightarrow> real \<Rightarrow> nat \<Rightarrow> nat \<Rightarrow> DrumHit list \<times> nat" where
  "drumBeat rng lowerDesc bd i k =
     (let time = real i * bd;
          kick = (if i mod 2 = 0 \<or> includesStr lowerDesc ''heartbeat'' then [Kick time] else [])
      in if i mod 2 \<noteq> 0 \<and> \<not> includesStr lowerDesc ''heartbeat''
         then (kick @ [Snare time (map (\<lambda>j. rng (k + j) * 2 - 1) [0..<snareLength])],
               k + snareLength)
         else (kick, k))"

fun drumLoop :: "random \<Rightarrow> string \<Rightarrow> real \<Rightarrow> nat list \<Rightarrow> nat \<Rightarrow> DrumHit list \<times> nat" where
  "drumLoop rng lowerDesc bd [] k = ([], k)"
| "drumLoop rng lowerDesc bd (i # is) k =
     (let (hits, k') = drumBeat rng lowerDesc bd i k;
          (rest, k'') = drumLoop rng lowerDesc bd is k'
      in (hits @ rest, k''))"

text \<open>For \<open>bpm = 0\<close> the bound \<open>duration / beatDuration\<close> is \<open>10 / Infinity = 0\<close>: no beat.\<close>

definition createDrums :: "random \<Rightarrow> string \<Rightarrow> nat \<Rightarrow> nat \<Rightarrow> DrumHit list \<times> nat" where
  "createDrums rng lowerDesc b k =
     (if b = 0 then ([], k)
      else drumLoop rng lowerDesc (beatDuration b)
             [0..<loopCount (real duration / beatDuration b)] k)"

subsection \<open>Harmony layer (createHarmony, lines 119-149)\<close>

record Oscillator =
  oscType :: OscillatorType
  detune :: real
  frequency :: real
  startTime :: real
  stopTime :: real

definition harmonyOscType :: "string \<Rightarrow> OscillatorType" where
  "harmonyOscType lowerDesc =
     (let t = sawtooth;
          t = (if includesStr lowerDesc ''choir'' \<or> includesStr lowerDesc ''soft'' then sine else t);
          t = (if includesStr lowerDesc ''synth'' then square else t)
      in t)"

text \<open>The body of \<open>chord.forEach\<close>: the oscillators of one chord note (lines 134-146).\<close>

definition harmonyNote :: "string \<Rightarrow> real \<Rightarrow> nat \<Rightarrow> real \<Rightarrow> nat \<Rightarrow> Oscillator list" where
  "harmonyNote lowerDesc bd scale0 time noteOffset =
     (let detuneAmount = (if includesStr lowerDesc ''string'' then 5 else 0 :: real)
      in concat (map (\<lambda>d.
           if d = 0 \<and> detuneAmount \<noteq> 0 then []
           else [\<lparr>oscType = harmonyOscType lowerDesc, detune = d,
                  frequency = baseFreq * 2 powr (real (noteOffset + scale0) / 12),
                  startTime = time, stopTime = time + bd * 4\<rparr>])
         [- detuneAmount, 0, detuneAmount]))"

definition harmonyChord :: "string \<Rightarrow> real \<Rightarrow> nat \<Rightarrow> nat \<Rightarrow> nat list \<Rightarrow> Oscillator list" where
  "harmonyChord lowerDesc bd scale0 i chord =
     (let time = real i * bd * 4
      in concat (map (harmonyNote lowerDesc bd scale0 time) chord))"

text \<open>
  The closure reads \<open>lowerDesc\<close>, \<open>chordProgression\<close>, \<open>beatDuration\<close> and \<open>scale\<close>; they are
  arguments here, the tempo in place of the beat duration. For \<open>bpm = 0\<close> the first start
  time is \<open>0 * Infinity = NaN\<close>, and for an empty scale the first frequency is \<open>NaN\<close>:
  \<open>setValueAtTime\<close> then throws a TypeError at the first oscillator (every note makes at
  least one). Without a note nothing is created and nothing is thrown.
\<close>

definition createHarmony ::
  "string \<Rightarrow> nat list list \<Rightarrow> nat \<Rightarrow> nat list \<Rightarrow> error + Oscillator list" where
  "createHarmony lowerDesc chords b sc =
     (if concat chords = [] then Inr []
      else if b = 0 then Inl TypeError
      else case sc of
        [] \<Rightarrow> Inl TypeError
      | scale0 # _ \<Rightarrow>
          Inr (concat (map (\<lambda>(i, chord). harmonyChord lowerDesc (beatDuration b) scale0 i chord)
                 (enumerate 0 chords))))"

subsection \<open>Bass layer (createBass, lines 152-174)\<close>

definition bassOscType :: "string \<Rightarrow> OscillatorType" where
  "bassOscType lowerDesc =
     (let t = square;
          t = (if includesStr lowerDesc ''rumble'' \<or> includesStr lowerDesc ''drone'' then sine else t)
      in t)"

text \<open>
  One oscillator per chord, on \<open>chord[0]\<close>. A chord without a first note gives the
  frequency \<open>NaN\<close>, and \<open>setValueAtTime\<close> throws, as it does for \<open>bpm = 0\<close> and for an
  empty scale.
\<close>

definition bassChord :: "string \<Rightarrow> real \<Rightarrow> nat \<Rightarrow> nat \<Rightarrow> nat list \<Rightarrow> error + Oscillator" where
  "bassChord lowerDesc bd scale0 i chord =
     (let time = real i * bd * 4
      in case chord of
        [] \<Rightarrow> Inl TypeError
      | rootNote # _ \<Rightarrow>
          Inr \<lparr>oscType = bassOscType lowerDesc, detune = 0,
               frequency = (baseFreq / 2) * 2 powr (real (rootNote + scale0) / 12),
               startTime = time, stopTime = time + bd * 4\<rparr>)"

fun bassLoop :: "string \<Rightarrow> real \<Rightarrow> nat \<Rightarrow> (nat \<times> nat list) list \<Rightarrow> error + Oscillator list" where
  "bassLoop lowerDesc bd scale0 [] = Inr []"
| "bassLoop lowerDesc bd scale0 ((i, chord) # rest) =
     (case bassChord lowerDesc bd scale0 i chord of
        Inl e \<Rightarrow> Inl e
      | Inr osc \<Rightarrow>
          (case bassLoop lowerDesc bd scale0 rest of
             Inl e \<Rightarrow> Inl e
           | Inr oscs \<Rightarrow> Inr (osc # oscs)))"

definition createBass ::
  "string \<Rightarrow> nat list list \<Rightarrow> nat \<Rightarrow> nat list \<Rightarrow> error + Oscillator list" where
  "createBass lowerDesc chords b sc =
     (if chords = [] then Inr []
      else if b = 0 then Inl TypeError
      else case sc of
        [] \<Rightarrow> Inl TypeError
      | scale0 # _ \<Rightarrow> bassLoop lowerDesc (beatDuration b) scale0 (enumerate 0 chords))"

subsection \<open>Melody layer (createMelody, lines 177-220)\<close>

text \<open>
  A note is an oscillator with its envelope: silent at \<open>noteTime\<close>, up to 1 by
  \<open>noteTime + attack\<close>, down to 0.001 by \<open>decayTime\<close>, where the oscillator stops.
\<close>

record MelodyNote =
  noteType :: OscillatorType
  noteDetune :: real
  noteFrequency :: real
  noteTime :: real
  attack :: real
  decayTime :: real

definition melodyOscType :: "string \<Rightarrow> OscillatorType" where
  "melodyOscType lowerDesc =
     (let t = triangle;
          t = (if includesStr lowerDesc ''bell'' \<or> includesStr lowerDesc ''music box''
                  \<or> includesStr lowerDesc ''glockenspiel'' then sine else t);
          t = (if includesStr lowerDesc ''piano'' then sine else t)
      in t)"

text \<open>
  One step of the loop: a first draw gates the note, a second one picks the scale degree.
  \<open>scale[noteIndex]\<close> outside the scale is \<open>undefined\<close>, the frequency \<open>NaN\<close>, and
  \<open>setValueAtTime\<close> throws. (\<open>chordIndex\<close> and \<open>currentChord\<close> are computed and not used.)
\<close>

definition melodyStep ::
  "random \<Rightarrow> string \<Rightarrow> real \<Rightarrow> nat list \<Rightarrow> nat \<Rightarrow> nat \<Rightarrow> error + (MelodyNote list \<times> nat)" where
  "melodyStep rng lowerDesc bd sc i k =
     (let time = real i * (bd / 2)
      in if rng k > 0.3
         then (let noteIndex = \<lfloor>rng (k + 1) * real (length sc)\<rfloor>
               in if 0 \<le> noteIndex \<and> noteIndex < int (length sc)
                  then (let note = sc ! nat noteIndex + 12;
                            long = (includesStr lowerDesc ''piano'' \<or> includesStr lowerDesc ''bell'')
                        in Inr ([\<lparr>noteType = melodyOscType lowerDesc,
                                   noteDetune = (if includesStr lowerDesc ''detuned'' then - 25 else 0),
                                   noteFrequency = baseFreq * 2 powr (real note / 12),
                                   noteTime = time,
                                   attack = (if long then 0.01 else 0.05),
                                   decayTime = (if long then time + bd * 2 else time + bd / 2)\<rparr>],
                                k + 2))
                  else Inl TypeError)
         else Inr ([], k + 1))"

fun melodyLoop ::
  "random \<Rightarrow> string \<Rightarrow> real \<Rightarrow> nat list \<Rightarrow> nat list \<Rightarrow> nat \<Rightarrow> error + (MelodyNote list \<times> nat)" where
  "melodyLoop rng lowerDesc bd sc [] k = Inr ([], k)"
| "melodyLoop rng lowerDesc bd sc (i # is) k =
     (case melodyStep rng lowerDesc bd sc i k of
        Inl e \<Rightarrow> Inl e
      | Inr (notes, k') \<Rightarrow>
          (case melodyLoop rng lowerDesc bd sc is k' of
             Inl e \<Rightarrow> Inl e
           | Inr (rest, k'') \<Rightarrow> Inr (notes @ rest, k'')))"

text \<open>For \<open>bpm = 0\<close> the bound \<open>duration / (beatDuration / 2)\<close> is 0: no step.\<close>

definition createMelody ::
  "random \<Rightarrow> string \<Rightarrow> nat \<Rightarrow> nat list \<Rightarrow> nat \<Rightarrow> error + (MelodyNote list \<times> nat)" where
  "createMelody rng lowerDesc b sc k =
     (if b = 0 then Inr ([], k)
      else melodyLoop rng lowerDesc (beatDuration b) sc
             [0..<loopCount (real duration / (beatDuration b / 2))] k)"

subsection \<open>The graph built by generateAudioPreview\<close>

text \<open>
  What is connected to the destination when \<open>startRendering\<close> is called: the master gain
  (0.5); the convolver with its impulse response behind a gain of 0.6, when ''reverb'' is
  in the text (the impulse response is drawn in any case); the delay line (at most 1 s,
  feedback 0.4) behind a gain of 0.5, when ''delay'' is; and each layer that was built, with
  its sources in the order of their creation. The layer gains are 0.8 (drums), 0.4 and a
  800 Hz low-pass (harmony), 0.7 and a 400 Hz low-pass (bass), 0.6 (melody).
\<close>

record AudioGraph =
  reverbImpulse :: "real list list option"
  delayLine :: bool
  drumsLayer :: "DrumHit list option"
  harmonyLayer :: "Oscillator list option"
  bassLayer :: "Oscillator list option"
  melodyLayer :: "MelodyNote list option"

definition generateAudioPreview :: "random \<Rightarrow> string \<Rightarrow> error + AudioGraph" where
  "generateAudioPreview rng description =
     (let (impulse, k0) = createImpulse rng 0;
          lowerDesc = toLowerCase description;
          b = bpm lowerDesc;
          sc = scale lowerDesc;
          chords = chordProgression lowerDesc;
          (drums, k1) = (if enableDrums lowerDesc
                         then (let (hits, k) = createDrums rng lowerDesc b k0 in (Some hits, k))
                         else (None, k0))
      in case (if enableHarmony lowerDesc
               then map_sum id Some (createHarmony lowerDesc chords b sc) else Inr None) of
           Inl e \<Rightarrow> Inl e
         | Inr harmony \<Rightarrow>
        (case (if enableBass lowerDesc
               then map_sum id Some (createBass lowerDesc chords b sc) else Inr None) of
           Inl e \<Rightarrow> Inl e
         | Inr bass \<Rightarrow>
        (case (if enableMelody lowerDesc
               then map_sum id (\<lambda>(notes, k). Some notes) (createMelody rng lowerDesc b sc k1)
               else Inr None) of
           Inl e \<Rightarrow> Inl e
         | Inr melody \<Rightarrow>
             Inr \<lparr>reverbImpulse = (if enableReverb lowerDesc then Some impulse else None),
                  delayLine = enableDelay lowerDesc,
                  drumsLayer = drums, harmonyLayer = harmony,
                  bassLayer = bass, melodyLayer = melody\<rparr>)))"

text \<open>
  The calls that build the harmony and the bass layer, as \<open>generateAudioPreview\<close> makes
  them: neither takes the random source.
\<close>

definition harmonyPart :: "string \<Rightarrow> error + Oscillator list option" where
  "harmonyPart lowerDesc =
     (if enableHarmony lowerDesc
      then map_sum id Some (createHarmony lowerDesc (chordProgression lowerDesc)
                             (bpm lowerDesc) (scale lowerDesc))
      else Inr None)"

definition bassPart :: "string \<Rightarrow> error + Oscillator list option" where
  "bassPart lowerDesc =
     (if enableBass lowerDesc
      then map_sum id Some (createBass lowerDesc (chordProgression lowerDesc)
                             (bpm lowerDesc) (scale lowerDesc))
      else Inr None)"

text \<open>Two random sources, constant at 0 and at 1/2, as concrete inputs.\<close>

definition randomLow :: random where
  "randomLow k = 0"

definition randomMid :: random where
  "randomMid k = 1 / 2"

section \<open>The WAV encoder (bufferToWav, lines 245-283)\<close>

subsection \<open>Samples\<close>

text \<open>
  A sample is a JavaScript number read from a \<open>Float32Array\<close>: a finite value, an infinity
  or \<open>NaN\<close>. Finite values are reals; on a 32-bit float the comparisons and the products
  with 32767 and 32768 below are exact in double arithmetic, so nothing is rounded.
\<close>

datatype number = Num real | PosInf | NegInf | NaN

text \<open>\<open>Math.min(a, x)\<close> and \<open>Math.max(a, x)\<close> for a finite \<open>a\<close>.\<close>

fun mathMin :: "real \<Rightarrow> number \<Rightarrow> number" where
  "mathMin a (Num r) = Num (min a r)"
| "mathMin a PosInf = Num a"
| "mathMin a NegInf = NegInf"
| "mathMin a NaN = NaN"

fun mathMax :: "real \<Rightarrow> number \<Rightarrow> number" where
  "mathMax a (Num r) = Num (max a r)"
| "mathMax a PosInf = PosInf"
| "mathMax a NegInf = Num a"
| "mathMax a NaN = NaN"

text \<open>Line 275: \<open>Math.max(-1, Math.min(1, x))\<close>.\<close>

definition clampSample :: "number \<Rightarrow> number" where
  "clampSample x = mathMax (- 1) (mathMin 1 x)"

text \<open>
  Line 276: \<open>sample < 0 ? sample * 32768 : sample * 32767\<close>. A comparison with \<open>NaN\<close> is
  false, and \<open>NaN\<close> times anything is \<open>NaN\<close>.
\<close>

fun intSample :: "number \<Rightarrow> number" where
  "intSample (Num r) = Num (if r < 0 then r * 32768 else r * 32767)"
| "intSample PosInf = PosInf"
| "intSample NegInf = NegInf"
| "intSample NaN = NaN"

text \<open>
  The conversion \<open>setInt16\<close> applies to its value (ToInt16): \<open>NaN\<close> and the infinities
  become 0, a finite value is truncated towards zero and reduced modulo \<open>2 ^ 16\<close> into
  the signed range.
\<close>

definition trunc :: "real \<Rightarrow> int" where
  "trunc r = (if r < 0 then \<lceil>r\<rceil> else \<lfloor>r\<rfloor>)"

fun toInt16 :: "number \<Rightarrow> int" where
  "toInt16 (Num r) = (trunc r + 32768) mod 65536 - 32768"
| "toInt16 PosInf = 0"
| "toInt16 NegInf = 0"
| "toInt16 NaN = 0"

subsection \<open>The buffer and the view\<close>

text \<open>
  The fields of \<open>AudioBuffer\<close> the encoder reads. \<open>channelData b channel i\<close> is
  \<open>getChannelData(channel)[i]\<close>. The sample rate is taken to be a whole number, as the
  renderer's 44100 is.
\<close>

record AudioBuffer =
  numberOfChannels :: nat
  length_buf :: nat
  sampleRate_buf :: nat
  channelData :: "nat \<Rightarrow> nat \<Rightarrow> number"

type_synonym byte = "8 word"

text \<open>
  The \<open>DataView\<close> over \<open>bufferOut\<close> is a list of bytes updated in place. A write that does
  not fit in the view throws a RangeError. Values are reduced to the width of the field
  (ToUint8, ToUint16, ToUint32, ToInt16) and written little-endian, as the calls ask.
\<close>

definition setUint8 :: "byte list \<Rightarrow> nat \<Rightarrow> nat \<Rightarrow> error + byte list" where
  "setUint8 view off v =
     (if off + 1 \<le> length view then Inr (view[off := of_nat v]) else Inl RangeError)"

definition setUint16 :: "byte list \<Rightarrow> nat \<Rightarrow> nat \<Rightarrow> error + byte list" where
  "setUint16 view off v =
     (if off + 2 \<le> length view
      then Inr (view[off := of_nat v, off + 1 := of_nat (v div 256)])
      else Inl RangeError)"

definition setUint32 :: "byte list \<Rightarrow> nat \<Rightarrow> nat \<Rightarrow> error + byte list" where
  "setUint32 view off v =
     (if off + 4 \<le> length view
      then Inr (view[off := of_nat v, off + 1 := of_nat (v div 256),
                     off + 2 := of_nat (v div 65536), off + 3 := of_nat (v div 16777216)])
      else Inl RangeError)"

definition setInt16 :: "byte list \<Rightarrow> nat \<Rightarrow> number \<Rightarrow> error + byte list" where
  "setInt16 view off x =
     (if off + 2 \<le> length view
      then Inr (view[off := of_int (toInt16 x), off + 1 := of_int (toInt16 x div 256)])
      else Inl RangeError)"

fun writeString :: "byte list \<Rightarrow> nat \<Rightarrow> string \<Rightarrow> error + byte list" where
  "writeString view off [] = Inr view"
| "writeString view off (c # cs) =
     (case setUint8 view off (of_char c) of
        Inl e \<Rightarrow> Inl e
      | Inr view' \<Rightarrow> writeString view' (off + 1) cs)"

text \<open>Sequencing of calls that may throw.\<close>

definition andThen :: "error + 'a \<Rightarrow> ('a \<Rightarrow> error + 'b) \<Rightarrow> error + 'b" where
  "andThen r f = (case r of Inl e \<Rightarrow> Inl e | Inr x \<Rightarrow> f x)"

text \<open>The inner loop over the channels of frame \<open>i\<close> and the outer loop over the frames.\<close>

fun writeChannels ::
  "AudioBuffer \<Rightarrow> nat \<Rightarrow> nat list \<Rightarrow> byte list \<times> nat \<Rightarrow> error + (byte list \<times> nat)" where
  "writeChannels b i [] st = Inr st"
| "writeChannels b i (channel # channels) (view, offset) =
     (let sample = clampSample (channelData b channel i)
      in case setInt16 view offset (intSample sample) of
           Inl e \<Rightarrow> Inl e
         | Inr view' \<Rightarrow> writeChannels b i channels (view', offset + 2))"

fun writeFrames ::
  "AudioBuffer \<Rightarrow> nat list \<Rightarrow> byte list \<times> nat \<Rightarrow> error + (byte list \<times> nat)" where
  "writeFrames b [] st = Inr st"
| "writeFrames b (i # is) st =
     (case writeChannels b i [0..<numberOfChannels b] st of
        Inl e \<Rightarrow> Inl e
      | Inr st' \<Rightarrow> writeFrames b is st')"

definition writeHeader :: "AudioBuffer \<Rightarrow> byte list \<Rightarrow> error + byte list" where
  "writeHeader b view =
     (let numOfChan = numberOfChannels b
      in andThen (writeString view 0 ''RIFF'') (\<lambda>view.
         andThen (setUint32 view 4 (36 + length_buf b * numOfChan * 2)) (\<lambda>view.
         andThen (writeString view 8 ''WAVE'') (\<lambda>view.
         andThen (writeString view 12 ''fmt '') (\<lambda>view.
         andThen (setUint32 view 16 16) (\<lambda>view.
         andThen (setUint16 view 20 1) (\<lambda>view.
         andThen (setUint16 view 22 numOfChan) (\<lambda>view.
         andThen (setUint32 view 24 (sampleRate_buf b)) (\<lambda>view.
         andThen (setUint32 view 28 (sampleRate_buf b * 2 * numOfChan)) (\<lambda>view.
         andThen (setUint16 view 32 (numOfChan * 2)) (\<lambda>view.
         andThen (setUint16 view 34 16) (\<lambda>view.
         andThen (writeString view 36 ''data'') (\<lambda>view.
         setUint32 view 40 (length_buf b * numOfChan * 2))))))))))))))"

text \<open>
  \<open>new ArrayBuffer(length)\<close> throws a RangeError when \<open>length\<close> is above \<open>2 ^ 53 - 1\<close>
  and when the platform cannot provide the block. Whether it can is no matter of the
  code: \<open>canAllocate n\<close> says that the platform provides a block of \<open>n\<close> bytes, and the
  encoder takes it as an argument. Up to \<open>2 ^ 53 - 1\<close> the sizes are whole numbers that the
  double arithmetic of the code computes exactly, and a size beyond is computed as a
  number beyond.
\<close>

definition maxByteLength :: nat where
  "maxByteLength = 9007199254740991"

definition bufferToWav :: "(nat \<Rightarrow> bool) \<Rightarrow> AudioBuffer \<Rightarrow> error + byte list" where
  "bufferToWav canAllocate b =
     (let numOfChan = numberOfChannels b;
          len = length_buf b * numOfChan * 2 + 44
      in if maxByteLength < len \<or> \<not> canAllocate len then Inl RangeError
         else (let bufferOut = replicate len 0
               in andThen (writeHeader b bufferOut) (\<lambda>view.
                  andThen (writeFrames b [0..<length_buf b] (view, 44)) (\<lambda>(view, offset).
                  Inr view))))"

subsection \<open>Reading the encoded bytes back\<close>

text \<open>
  The \<open>DataView\<close> getters, little-endian, a run of bytes, and the character codes of a
  tag: what a reader of the file sees. They are used to state the properties of the header and the samples.
\<close>

definition getUint16 :: "byte list \<Rightarrow> nat \<Rightarrow> nat" where
  "getUint16 bytes off = unat (bytes ! off) + 256 * unat (bytes ! (off + 1))"

definition getUint32 :: "byte list \<Rightarrow> nat \<Rightarrow> nat" where
  "getUint32 bytes off =
     unat (bytes ! off) + 256 * unat (bytes ! (off + 1))
     + 65536 * unat (bytes ! (off + 2)) + 16777216 * unat (bytes ! (off + 3))"

definition getInt16 :: "byte list \<Rightarrow> nat \<Rightarrow> int" where
  "getInt16 bytes off =
     (let u = int (getUint16 bytes off) in if u < 32768 then u else u - 65536)"

definition getBytes :: "byte list \<Rightarrow> nat \<Rightarrow> nat \<Rightarrow> byte list" where
  "getBytes bytes off n = take n (drop off bytes)"

definition charCodes :: "string \<Rightarrow> byte list" where
  "charCodes s = map (\<lambda>c. of_nat (of_char c)) s"

subsection \<open>The encoded file as a value\<close>

text \<open>
  The bytes the writes above leave in the view, field by field: the file that
  \<open>bufferToWav\<close> is proved to return.
\<close>

definition le16 :: "nat \<Rightarrow> byte list" where
  "le16 v = [of_nat v, of_nat (v div 256)]"

definition le32 :: "nat \<Rightarrow> byte list" where
  "le32 v = [of_nat v, of_nat (v div 256), of_nat (v div 65536), of_nat (v div 16777216)]"

definition dataBytes :: "AudioBuffer \<Rightarrow> nat" where
  "dataBytes b = length_buf b * numberOfChannels b * 2"

definition wavHeader :: "AudioBuffer \<Rightarrow> byte list" where
  "wavHeader b =
     charCodes ''RIFF'' @ le32 (36 + dataBytes b) @ charCodes ''WAVE''
     @ charCodes ''fmt '' @ le32 16 @ le16 1 @ le16 (numberOfChannels b)
     @ le32 (sampleRate_buf b) @ le32 (sampleRate_buf b * 2 * numberOfChannels b)
     @ le16 (numberOfChannels b * 2) @ le16 16
     @ charCodes ''data'' @ le32 (dataBytes b)"

definition pcm :: "number \<Rightarrow> int" where
  "pcm x = toInt16 (intSample (clampSample x))"

definition sampleBytes :: "number \<Rightarrow> byte list" where
  "sampleBytes x = [of_int (pcm x), of_int (pcm x div 256)]"

definition frameBytes :: "AudioBuffer \<Rightarrow> nat \<Rightarrow> byte list" where
  "frameBytes b i =
     concat (map (\<lambda>channel. sampleBytes (channelData b channel i)) [0..<numberOfChannels b])"

definition wavData :: "AudioBuffer \<Rightarrow> byte list" where
  "wavData b = concat (map (frameBytes b) [0..<length_buf b])"

text \<open>The view \<open>xs\<close> after the bytes \<open>bs\<close> have been written from offset \<open>off\<close> on.\<close>

definition splice :: "'a list \<Rightarrow> nat \<Rightarrow> 'a list \<Rightarrow> 'a list" where
  "splice xs off bs = take off xs @ bs @ drop (off + length bs) xs"

subsection \<open>Buffers used as concrete inputs\<close>

text \<open>
  A buffer of the shape the renderer returns (\<open>OfflineAudioContext(2, sampleRate * duration,
  sampleRate)\<close>, here silent), a small buffer with samples inside and outside \<open>[-1, 1]\<close>, a
  buffer with so many channels that the block alignment needs 17 bits, one with so
  many frames that the data size needs 33 bits, and a buffer of one \<open>NaN\<close> sample.
  \<open>allocatesUpTo limit\<close> is a platform that provides every block of at most \<open>limit\<close> bytes
  and none above.
\<close>

definition renderedBuffer :: AudioBuffer where
  "renderedBuffer = \<lparr>numberOfChannels = 2, length_buf = sampleRate * duration,
     sampleRate_buf = sampleRate, channelData = (\<lambda>channel i. Num 0)\<rparr>"

definition sampleBuffer :: AudioBuffer where
  "sampleBuffer = \<lparr>numberOfChannels = 2, length_buf = 3, sampleRate_buf = 44100,
     channelData = (\<lambda>channel i. if channel = 0 then Num (real i / 2) else Num (- real i))\<rparr>"

definition wideBuffer :: AudioBuffer where
  "wideBuffer = \<lparr>numberOfChannels = 32768, length_buf = 1,
     sampleRate_buf = 44100, channelData = (\<lambda>channel i. Num 0)\<rparr>"

definition longBuffer :: AudioBuffer where
  "longBuffer = \<lparr>numberOfChannels = 2, length_buf = 1073741824,
     sampleRate_buf = 44100, channelData = (\<lambda>channel i. Num 0)\<rparr>"

definition nanBuffer :: AudioBuffer where
  "nanBuffer = \<lparr>numberOfChannels = 1, length_buf = 1,
     sampleRate_buf = 44100, channelData = (\<lambda>channel i. NaN)\<rparr>"

definition allocatesUpTo :: "nat \<Rightarrow> nat \<Rightarrow> bool" where
  "allocatesUpTo limit n = (n \<le> limit)"

section \<open>Facts about the strings and the tempo expression\<close>

lemma includesStr_iff: "includesStr s pat \<longleftrightarrow> (\<exists>pre post. s = pre @ pat @ post)"
proof (induction s)
  case Nil
  then show ?case by auto
next
  case (Cons c cs)
  show ?case
  proof
    assume "includesStr (c # cs) pat"
    then consider "prefix pat (c # cs)" | "includesStr cs pat" by auto
    then show "\<exists>pre post. c # cs = pre @ pat @ post"
    proof cases
      case 1
      then obtain post where "c # cs = pat @ post" by (auto simp: prefix_def)
      then have "c # cs = [] @ pat @ post" by simp
      then show ?thesis by blast
    next
      case 2
      with Cons.IH obtain pre post where "cs = pre @ pat @ post" by blast
      then have "c # cs = (c # pre) @ pat @ post" by simp
      then show ?thesis by blast
    qed
  next
    assume "\<exists>pre post. c # cs = pre @ pat @ post"
    then obtain pre post where e: "c # cs = pre @ pat @ post" by blast
    show "includesStr (c # cs) pat"
    proof (cases pre)
      case Nil
      with e have "prefix pat (c # cs)" by (simp add: prefix_def)
      then show ?thesis by simp
    next
      case (Cons a pre')
      with e have "cs = pre' @ pat @ post" by simp
      with Cons.IH have "includesStr cs pat" by blast
      then show ?thesis by simp
    qed
  qed
qed

lemma not_isSpace_b: "\<not> isSpace CHR ''b''"
  by (simp add: isSpace_def)

lemma not_isDigit_b: "\<not> isDigit CHR ''b''"
  by (simp add: isDigit_def)

lemma isDigit_not_isSpace: "isDigit c \<Longrightarrow> \<not> isSpace c"
  by (auto simp: isDigit_def isSpace_def)

lemma prefix_bpm_hd: "prefix ''bpm'' r \<Longrightarrow> \<exists>r'. r = CHR ''b'' # r'"
  by (auto simp: prefix_def)

lemma drop_takeWhile_hd:
  assumes "w < length (takeWhile P r)"
  shows "\<exists>c r'. drop w r = c # r' \<and> P c"
proof -
  from assms have w: "w < length r"
    using length_takeWhile_le [of P r] by simp
  have "P (takeWhile P r ! w)"
    using assms by (meson nth_mem set_takeWhileD)
  then have "P (r ! w)" using assms by (simp add: takeWhile_nth)
  moreover have "drop w r = r ! w # drop (Suc w) r"
    using w by (simp add: Cons_nth_drop_Suc)
  ultimately show ?thesis by blast
qed

lemma drop_length_takeWhile: "drop (length (takeWhile P r)) r = dropWhile P r"
  by (metis append_eq_conv_conj takeWhile_dropWhile_id)

lemma matchSpacesBpm_iff: "matchSpacesBpm r \<longleftrightarrow> prefix ''bpm'' (dropWhile isSpace r)"
proof
  assume "matchSpacesBpm r"
  then obtain w where w: "w \<le> length (takeWhile isSpace r)" "prefix ''bpm'' (drop w r)"
    by (auto simp: matchSpacesBpm_def list_ex_iff less_Suc_eq_le simp del: upt_Suc)
  have "\<not> w < length (takeWhile isSpace r)"
  proof
    assume "w < length (takeWhile isSpace r)"
    from drop_takeWhile_hd [OF this] obtain c r' where "drop w r = c # r'" "isSpace c" by blast
    with w(2) not_isSpace_b show False by (auto dest: prefix_bpm_hd)
  qed
  with w(1) have "w = length (takeWhile isSpace r)" by simp
  with w(2) show "prefix ''bpm'' (dropWhile isSpace r)" by (simp add: drop_length_takeWhile)
next
  assume "prefix ''bpm'' (dropWhile isSpace r)"
  then have "prefix ''bpm'' (drop (length (takeWhile isSpace r)) r)"
    by (simp add: drop_length_takeWhile)
  then show "matchSpacesBpm r"
    unfolding matchSpacesBpm_def list_ex_iff by force
qed

lemma matchSpacesBpm_digit: "isDigit c \<Longrightarrow> \<not> matchSpacesBpm (c # r)"
  by (auto simp: matchSpacesBpm_iff isDigit_not_isSpace not_isDigit_b dest!: prefix_bpm_hd)

lemma matchBpmAt_eq:
  "matchBpmAt s =
     (if takeWhile isDigit s \<noteq> [] \<and> prefix ''bpm'' (dropWhile isSpace (dropWhile isDigit s))
      then Some (takeWhile isDigit s) else None)"
proof -
  let ?n = "length (takeWhile isDigit s)"
  let ?P = "\<lambda>k. matchSpacesBpm (drop k s)"
  have short: "\<not> ?P k" if "k < ?n" for k
  proof -
    from drop_takeWhile_hd [OF that] obtain c r' where "drop k s = c # r'" "isDigit c" by blast
    then show ?thesis by (simp add: matchSpacesBpm_digit)
  qed
  show ?thesis
  proof (cases "?n = 0")
    case True
    then show ?thesis by (simp add: matchBpmAt_def)
  next
    case False
    then have "Suc 0 \<le> ?n" by (simp add: Suc_le_eq)
    then have r: "rev [1..<Suc ?n] = ?n # rev [1..<?n]" by simp
    have none: "List.find ?P (rev [1..<?n]) = None"
      by (auto simp: find_None_iff short)
    have full: "?P ?n \<longleftrightarrow> prefix ''bpm'' (dropWhile isSpace (dropWhile isDigit s))"
      by (simp add: matchSpacesBpm_iff drop_length_takeWhile)
    have tk: "take ?n s = takeWhile isDigit s"
      by (metis append_eq_conv_conj takeWhile_dropWhile_id)
    from False have ne: "takeWhile isDigit s \<noteq> []" by simp
    show ?thesis
      unfolding matchBpmAt_def r using none full tk ne by (simp del: upt_Suc)
  qed
qed

lemma isSpace_not_isDigit: "isSpace c \<Longrightarrow> \<not> isDigit c"
  using isDigit_not_isSpace by blast

lemma takeWhile_all: "list_all P xs \<Longrightarrow> (ys = [] \<or> \<not> P (hd ys)) \<Longrightarrow> takeWhile P (xs @ ys) = xs"
  by (cases ys) (auto simp: list_all_iff takeWhile_append2)

lemma dropWhile_all: "list_all P xs \<Longrightarrow> (ys = [] \<or> \<not> P (hd ys)) \<Longrightarrow> dropWhile P (xs @ ys) = ys"
  by (cases ys) (auto simp: list_all_iff dropWhile_append2)

lemma tokenAt_imp_match:
  assumes "bpmTokenAt s ds"
  shows "matchBpmAt s = Some ds"
proof -
  from assms obtain ws post where
    ds: "ds \<noteq> []" "list_all isDigit ds" and ws: "list_all isSpace ws"
    and s: "s = ds @ ws @ ''bpm'' @ post"
    by (auto simp: bpmTokenAt_def)
  have nd: "\<not> isDigit (hd (ws @ ''bpm'' @ post))"
    using ws by (cases ws) (auto simp: not_isDigit_b isSpace_not_isDigit)
  have t: "takeWhile isDigit s = ds"
    unfolding s using ds(2) nd by (intro takeWhile_all) simp_all
  have d: "dropWhile isDigit s = ws @ ''bpm'' @ post"
    unfolding s using ds(2) nd by (intro dropWhile_all) simp_all
  have "dropWhile isSpace (ws @ ''bpm'' @ post) = ''bpm'' @ post"
    using ws by (intro dropWhile_all) (simp_all add: not_isSpace_b)
  then have "prefix ''bpm'' (dropWhile isSpace (dropWhile isDigit s))"
    by (simp add: d)
  with t ds(1) show ?thesis by (simp add: matchBpmAt_eq)
qed

lemma match_imp_tokenAt:
  assumes "matchBpmAt s = Some ds"
  shows "bpmTokenAt s ds"
proof -
  from assms have ds: "ds = takeWhile isDigit s" "ds \<noteq> []"
    and p: "prefix ''bpm'' (dropWhile isSpace (dropWhile isDigit s))"
    by (auto simp: matchBpmAt_eq split: if_splits)
  from p obtain post where post: "dropWhile isSpace (dropWhile isDigit s) = ''bpm'' @ post"
    by (auto simp: prefix_def)
  let ?ws = "takeWhile isSpace (dropWhile isDigit s)"
  have "s = ds @ dropWhile isDigit s" by (simp add: ds(1))
  also have "dropWhile isDigit s = ?ws @ dropWhile isSpace (dropWhile isDigit s)" by simp
  finally have "s = ds @ ?ws @ ''bpm'' @ post" by (simp only: post)
  moreover have "list_all isSpace ?ws" "list_all isDigit ds"
    by (auto simp: list_all_iff ds(1) dest: set_takeWhileD)
  ultimately show ?thesis unfolding bpmTokenAt_def using ds(2) by blast
qed

lemma matchBpmAt_token: "matchBpmAt s = Some ds \<longleftrightarrow> bpmTokenAt s ds"
  using tokenAt_imp_match match_imp_tokenAt by blast

lemma matchBpmAt_None: "matchBpmAt s = None \<longleftrightarrow> (\<forall>g. \<not> bpmTokenAt s g)"
  by (metis matchBpmAt_token not_Some_eq option.distinct(1))

lemma bpmMatch_None_iff: "bpmMatch t = None \<longleftrightarrow> (\<forall>i. matchBpmAt (drop i t) = None)"
proof (induction t)
  case Nil
  then show ?case by simp
next
  case (Cons c cs)
  have "(\<forall>i. matchBpmAt (drop i (c # cs)) = None)
        \<longleftrightarrow> matchBpmAt (c # cs) = None \<and> (\<forall>j. matchBpmAt (drop j cs) = None)"
  proof
    assume a: "\<forall>i. matchBpmAt (drop i (c # cs)) = None"
    from a [rule_format, of 0] have "matchBpmAt (c # cs) = None" by simp
    moreover have "matchBpmAt (drop j cs) = None" for j
      using a [rule_format, of "Suc j"] by simp
    ultimately show "matchBpmAt (c # cs) = None \<and> (\<forall>j. matchBpmAt (drop j cs) = None)"
      by blast
  next
    assume a: "matchBpmAt (c # cs) = None \<and> (\<forall>j. matchBpmAt (drop j cs) = None)"
    show "\<forall>i. matchBpmAt (drop i (c # cs)) = None"
    proof
      fix i show "matchBpmAt (drop i (c # cs)) = None"
        using a by (cases i) simp_all
    qed
  qed
  with Cons.IH show ?case by (simp split: option.splits)
qed

lemma bpmMatch_here: "matchBpmAt r = Some g \<Longrightarrow> bpmMatch r = Some g"
  by (cases r) simp_all

lemma bpmMatch_first:
  assumes "matchBpmAt rest = Some g"
    and "\<forall>i<length pre. matchBpmAt (drop i (pre @ rest)) = None"
  shows "bpmMatch (pre @ rest) = Some g"
  using assms(2)
proof (induction pre)
  case Nil
  then show ?case using assms(1) by (simp add: bpmMatch_here)
next
  case (Cons c pre)
  from Cons.prems [rule_format, of 0] have h: "matchBpmAt (c # pre @ rest) = None" by simp
  have "matchBpmAt (drop i (pre @ rest)) = None" if "i < length pre" for i
    using Cons.prems [rule_format, of "Suc i"] that by simp
  with Cons.IH have "bpmMatch (pre @ rest) = Some g" by blast
  with h show ?case by simp
qed

lemma bpmMatch_Some_ex:
  assumes "bpmMatch t = Some g"
  shows "\<exists>pre rest. t = pre @ rest \<and> matchBpmAt rest = Some g
           \<and> (\<forall>i<length pre. matchBpmAt (drop i t) = None)"
  using assms
proof (induction t)
  case Nil
  then have m: "matchBpmAt [] = Some g" by simp
  have "\<forall>i<length ([] :: string). matchBpmAt (drop i []) = None" by simp
  moreover have "([] :: string) = [] @ []" by simp
  ultimately show ?case using m by blast
next
  case (Cons c cs)
  show ?case
  proof (cases "matchBpmAt (c # cs)")
    case (Some g')
    with Cons.prems have m: "matchBpmAt (c # cs) = Some g" by simp
    have "\<forall>i<length ([] :: string). matchBpmAt (drop i (c # cs)) = None" by simp
    moreover have "c # cs = [] @ (c # cs)" by simp
    ultimately show ?thesis using m by blast
  next
    case None
    with Cons.prems have "bpmMatch cs = Some g" by simp
    with Cons.IH obtain pre rest where
      pr: "cs = pre @ rest" "matchBpmAt rest = Some g"
        "\<forall>i<length pre. matchBpmAt (drop i cs) = None"
      by blast
    have "matchBpmAt (drop i (c # cs)) = None" if "i < length (c # pre)" for i
    proof (cases i)
      case 0
      then show ?thesis using None by simp
    next
      case (Suc j)
      with that have "j < length pre" by simp
      with pr(3) have "matchBpmAt (drop j cs) = None" by blast
      with Suc show ?thesis by simp
    qed
    then have "\<forall>i<length (c # pre). matchBpmAt (drop i (c # cs)) = None" by blast
    moreover have "c # cs = (c # pre) @ rest" by (simp only: pr(1) append_Cons)
    ultimately show ?thesis using pr(2) by blast
  qed
qed

lemma noTokenBefore_iff:
  "noTokenBefore t n \<longleftrightarrow> (\<forall>i<n. \<forall>g. \<not> bpmTokenAt (drop i t) g)"
  by (auto simp: noTokenBefore_def list_all_iff matchBpmAt_None)

lemma bpmMatch_None_token: "bpmMatch t = None \<longleftrightarrow> (\<forall>i g. \<not> bpmTokenAt (drop i t) g)"
  by (simp add: bpmMatch_None_iff matchBpmAt_None)

lemma bpm_no_match:
  "bpmMatch t = None \<Longrightarrow>
   bpm t = (if includesStr t ''fast'' \<or> includesStr t ''upbeat'' then 140
            else if includesStr t ''slow'' then 80 else 120)"
  by (simp add: bpm_def)

lemma bpm_first_token:
  assumes "bpmTokenAt rest ds" and "\<forall>i<length pre. \<forall>g. \<not> bpmTokenAt (drop i (pre @ rest)) g"
  shows "bpm (pre @ rest) = parseInt10 ds"
proof -
  from assms(1) have "matchBpmAt rest = Some ds" by (rule tokenAt_imp_match)
  moreover from assms(2) have "\<forall>i<length pre. matchBpmAt (drop i (pre @ rest)) = None"
    by (simp add: matchBpmAt_None)
  ultimately have "bpmMatch (pre @ rest) = Some ds" by (rule bpmMatch_first)
  then show ?thesis by (simp add: bpm_def)
qed

lemma first_token_exists:
  assumes "bpmTokenAt (drop i t) g"
  shows "\<exists>pre rest ds. t = pre @ rest \<and> bpmTokenAt rest ds
           \<and> (\<forall>i<length pre. \<forall>g. \<not> bpmTokenAt (drop i t) g)"
proof -
  from assms have "bpmMatch t \<noteq> None" by (auto simp: bpmMatch_None_token)
  then obtain ds where "bpmMatch t = Some ds" by blast
  from bpmMatch_Some_ex [OF this] show ?thesis
    by (simp add: matchBpmAt_token matchBpmAt_None) blast
qed

section \<open>Facts about the encoder\<close>

subsection \<open>Writes into the view\<close>

lemma length_splice: "off + length bs \<le> length xs \<Longrightarrow> length (splice xs off bs) = length xs"
  by (simp add: splice_def)

lemma splice1: "off < length xs \<Longrightarrow> xs[off := a] = splice xs off [a]"
  by (simp add: splice_def upd_conv_take_nth_drop)

lemma splice_splice:
  assumes "off + length as + length bs \<le> length xs"
  shows "splice (splice xs off as) (off + length as) bs = splice xs off (as @ bs)"
proof -
  from assms have "off \<le> length xs" by simp
  then have "min (length xs) off = off" by simp
  then show ?thesis by (simp add: splice_def ac_simps)
qed

lemma splice_Nil: "splice xs off [] = xs"
  by (simp add: splice_def)

lemma splice2:
  assumes "off + 2 \<le> length xs"
  shows "xs[off := a, Suc off := b] = splice xs off [a, b]"
proof -
  have "xs[off := a, Suc off := b] = splice (splice xs off [a]) (off + length [a]) [b]"
    using assms by (simp add: splice1 [symmetric])
  also have "\<dots> = splice xs off ([a] @ [b])"
    using assms by (intro splice_splice) simp
  finally show ?thesis by simp
qed

lemma splice4:
  assumes "off + 4 \<le> length xs"
  shows "xs[off := a, Suc off := b, Suc (Suc off) := c, Suc (Suc (Suc off)) := d]
         = splice xs off [a, b, c, d]"
proof -
  have "xs[off := a, Suc off := b] = splice xs off [a, b]"
    using assms by (intro splice2) simp
  moreover have "(splice xs off [a, b])[Suc (Suc off) := c, Suc (Suc (Suc off)) := d]
        = splice (splice xs off [a, b]) (Suc (Suc off)) [c, d]"
    using assms by (intro splice2) (simp add: length_splice)
  ultimately have "xs[off := a, Suc off := b, Suc (Suc off) := c, Suc (Suc (Suc off)) := d]
        = splice (splice xs off [a, b]) (off + length [a, b]) [c, d]"
    by simp
  also have "\<dots> = splice xs off ([a, b] @ [c, d])"
    using assms by (intro splice_splice) simp
  finally show ?thesis by simp
qed

lemma setUint16_splice:
  "off + 2 \<le> length view \<Longrightarrow> setUint16 view off v = Inr (splice view off (le16 v))"
  using splice2 [of off view] by (simp add: setUint16_def le16_def)

lemma setUint32_splice:
  "off + 4 \<le> length view \<Longrightarrow> setUint32 view off v = Inr (splice view off (le32 v))"
  using splice4 [of off view] by (simp add: setUint32_def le32_def numeral_3_eq_3)

lemma setInt16_splice:
  "off + 2 \<le> length view \<Longrightarrow>
   setInt16 view off (intSample (clampSample x)) = Inr (splice view off (sampleBytes x))"
  using splice2 [of off view] by (simp add: setInt16_def sampleBytes_def pcm_def)

lemma writeString_splice:
  "off + length s \<le> length view \<Longrightarrow>
   writeString view off s = Inr (splice view off (charCodes s))"
proof (induction s arbitrary: view off)
  case Nil
  then show ?case by (simp add: charCodes_def splice_Nil)
next
  case (Cons c cs)
  let ?a = "of_nat (of_char c) :: byte"
  from Cons.prems have o: "off < length view" by simp
  have l: "(off + 1) + length cs \<le> length (splice view off [?a])"
    using Cons.prems by (simp add: length_splice)
  have "writeString view off (c # cs) = writeString (splice view off [?a]) (off + 1) cs"
    using o by (simp add: setUint8_def splice1)
  also have "\<dots> = Inr (splice (splice view off [?a]) (off + length [?a]) (charCodes cs))"
    using Cons.IH [OF l] by simp
  also have "splice (splice view off [?a]) (off + length [?a]) (charCodes cs)
             = splice view off ([?a] @ charCodes cs)"
    using Cons.prems by (intro splice_splice) (simp add: charCodes_def)
  finally show ?case by (simp add: charCodes_def)
qed


lemma splice_full: "length bs = length xs \<Longrightarrow> splice xs 0 bs = bs"
  by (simp add: splice_def)

lemma splice0:
  "n = length as \<Longrightarrow> n + length bs \<le> length xs \<Longrightarrow>
   splice (splice xs 0 as) n bs = splice xs 0 (as @ bs)"
  using splice_splice [of 0 as bs xs] by simp

lemma length_charCodes: "length (charCodes s) = length s"
  by (simp add: charCodes_def)

lemma length_le16: "length (le16 v) = 2"
  by (simp add: le16_def)

lemma length_le32: "length (le32 v) = 4"
  by (simp add: le32_def)

lemma length_sampleBytes: "length (sampleBytes x) = 2"
  by (simp add: sampleBytes_def)

lemma length_wavHeader: "length (wavHeader b) = 44"
  by (simp add: wavHeader_def length_charCodes length_le16 length_le32)

lemma andThen_Inr: "andThen (Inr x) f = f x"
  by (simp add: andThen_def)

lemma writeHeader_splice:
  assumes "44 \<le> length view"
  shows "writeHeader b view = Inr (splice view 0 (wavHeader b))"
  using assms
  by (simp add: writeHeader_def wavHeader_def dataBytes_def andThen_Inr Let_def
      writeString_splice setUint16_splice setUint32_splice length_splice splice0
      length_charCodes length_le16 length_le32 del: writeString.simps)

lemma writeChannels_splice:
  "offset + 2 * length chs \<le> length view \<Longrightarrow>
   writeChannels b i chs (view, offset)
   = Inr (splice view offset (concat (map (\<lambda>channel. sampleBytes (channelData b channel i)) chs)),
          offset + 2 * length chs)"
proof (induction chs arbitrary: view offset)
  case Nil
  then show ?case by (simp add: splice_Nil)
next
  case (Cons c cs)
  let ?s = "sampleBytes (channelData b c i)"
  let ?rest = "concat (map (\<lambda>channel. sampleBytes (channelData b channel i)) cs)"
  have lr: "length ?rest = 2 * length cs"
    by (induction cs) (simp_all add: length_sampleBytes)
  from Cons.prems have fit: "offset + 2 \<le> length view" by simp
  have l: "(offset + 2) + 2 * length cs \<le> length (splice view offset ?s)"
    using Cons.prems by (simp add: length_splice length_sampleBytes)
  have "writeChannels b i (c # cs) (view, offset)
        = writeChannels b i cs (splice view offset ?s, offset + 2)"
    using fit by (simp add: setInt16_splice)
  also have "\<dots> = Inr (splice (splice view offset ?s) (offset + length ?s) ?rest,
                        offset + 2 + 2 * length cs)"
    using Cons.IH [OF l] by (simp add: length_sampleBytes)
  also have "splice (splice view offset ?s) (offset + length ?s) ?rest
             = splice view offset (?s @ ?rest)"
    using Cons.prems by (intro splice_splice) (simp add: lr length_sampleBytes)
  finally show ?case by simp
qed

lemma length_frameBytes: "length (frameBytes b i) = 2 * numberOfChannels b"
proof -
  have "length (concat (map (\<lambda>channel. sampleBytes (channelData b channel i)) cs)) = 2 * length cs"
    for cs by (induction cs) (simp_all add: length_sampleBytes)
  then show ?thesis by (simp add: frameBytes_def)
qed

lemma length_concat_frames:
  "length (concat (map (frameBytes b) is)) = 2 * numberOfChannels b * length is"
  by (induction "is") (simp_all add: length_frameBytes algebra_simps)

lemma length_wavData: "length (wavData b) = dataBytes b"
  by (simp add: wavData_def dataBytes_def length_concat_frames algebra_simps)

lemma writeFrames_splice:
  "offset + 2 * numberOfChannels b * length is \<le> length view \<Longrightarrow>
   writeFrames b is (view, offset)
   = Inr (splice view offset (concat (map (frameBytes b) is)),
          offset + 2 * numberOfChannels b * length is)"
proof (induction "is" arbitrary: view offset)
  case Nil
  then show ?case by (simp add: splice_Nil)
next
  case (Cons i js)
  let ?n = "numberOfChannels b"
  let ?f = "frameBytes b i"
  let ?rest = "concat (map (frameBytes b) js)"
  from Cons.prems have fit: "offset + 2 * length [0..<?n] \<le> length view"
    by (simp add: algebra_simps)
  have l: "(offset + 2 * ?n) + 2 * ?n * length js \<le> length (splice view offset ?f)"
    using Cons.prems by (simp add: length_splice length_frameBytes algebra_simps)
  have "writeFrames b (i # js) (view, offset)
        = writeFrames b js (splice view offset ?f, offset + 2 * ?n)"
    using writeChannels_splice [OF fit, of b i] by (simp add: frameBytes_def)
  also have "\<dots> = Inr (splice (splice view offset ?f) (offset + length ?f) ?rest,
                        offset + 2 * ?n + 2 * ?n * length js)"
    using Cons.IH [OF l] by (simp add: length_frameBytes)
  also have "splice (splice view offset ?f) (offset + length ?f) ?rest
             = splice view offset (?f @ ?rest)"
    using Cons.prems
    by (intro splice_splice) (simp add: length_frameBytes length_concat_frames algebra_simps)
  finally show ?case by (simp add: algebra_simps)
qed

lemma bufferToWav_eq:
  assumes "44 + dataBytes b \<le> maxByteLength" and "canAllocate (44 + dataBytes b)"
  shows "bufferToWav canAllocate b = Inr (wavHeader b @ wavData b)"
proof -
  let ?view = "replicate (length_buf b * numberOfChannels b * 2 + 44) (0 :: byte)"
  let ?v1 = "splice ?view 0 (wavHeader b)"
  have h: "writeHeader b ?view = Inr ?v1"
    by (rule writeHeader_splice) simp
  have fit: "44 + 2 * numberOfChannels b * length [0..<length_buf b] \<le> length ?v1"
    by (simp add: length_splice length_wavHeader algebra_simps)
  have d: "writeFrames b [0..<length_buf b] (?v1, 44)
           = Inr (splice ?v1 44 (wavData b), 44 + 2 * numberOfChannels b * length_buf b)"
    using writeFrames_splice [OF fit] by (simp add: wavData_def)
  have "splice ?v1 44 (wavData b) = splice ?view 0 (wavHeader b @ wavData b)"
    by (rule splice0) (simp_all add: length_wavHeader length_wavData dataBytes_def)
  also have "\<dots> = wavHeader b @ wavData b"
    by (rule splice_full) (simp add: length_wavHeader length_wavData dataBytes_def)
  finally have s: "splice ?v1 44 (wavData b) = wavHeader b @ wavData b" .
  have "\<not> (maxByteLength < length_buf b * numberOfChannels b * 2 + 44
           \<or> \<not> canAllocate (length_buf b * numberOfChannels b * 2 + 44))"
    using assms by (simp add: dataBytes_def add.commute)
  then show ?thesis
    unfolding bufferToWav_def Let_def h andThen_Inr d by (simp add: s)
qed

lemma bufferToWav_RangeError:
  assumes "maxByteLength < 44 + dataBytes b \<or> \<not> canAllocate (44 + dataBytes b)"
  shows "bufferToWav canAllocate b = Inl RangeError"
proof -
  from assms have "maxByteLength < length_buf b * numberOfChannels b * 2 + 44
           \<or> \<not> canAllocate (length_buf b * numberOfChannels b * 2 + 44)"
    by (simp add: dataBytes_def add.commute)
  then show ?thesis
    unfolding bufferToWav_def Let_def by (simp only: if_True)
qed

subsection \<open>Reading fields back\<close>

lemma unat_byte_of_nat: "unat (of_nat v :: byte) = v mod 256"
  by (simp add: unat_of_nat)

lemma nat_bytes32:
  "v mod 256 + 256 * (v div 256 mod 256) + 65536 * (v div 65536 mod 256)
   + 16777216 * (v div 16777216 mod 256) = v mod 4294967296" for v :: nat
proof -
  have a: "v mod (256 * 256) = 256 * (v div 256 mod 256) + v mod 256"
    by (rule mod_mult2_eq)
  have b: "v mod (65536 * 256) = 65536 * (v div 65536 mod 256) + v mod 65536"
    by (rule mod_mult2_eq)
  have c: "v mod (16777216 * 256) = 16777216 * (v div 16777216 mod 256) + v mod 16777216"
    by (rule mod_mult2_eq)
  from a b c show ?thesis by simp
qed

lemma nat_bytes16: "v mod 256 + 256 * (v div 256 mod 256) = v mod 65536" for v :: nat
  using mod_mult2_eq [of v 256 256] by simp

lemma getUint32_le32:
  "getUint32 (pre @ le32 v @ post) (length pre) = v mod 4294967296"
  by (simp add: getUint32_def le32_def nth_append unat_byte_of_nat div_mult2_eq [symmetric]
      nat_bytes32 [symmetric])

lemma getUint16_le16:
  "getUint16 (pre @ le16 v @ post) (length pre) = v mod 65536"
  by (simp add: getUint16_def le16_def nth_append unat_byte_of_nat nat_bytes16 [symmetric])

lemma toInt16_range: "- 32768 \<le> toInt16 x \<and> toInt16 x \<le> 32767"
  by (cases x) simp_all

lemma pcm_range: "- 32768 \<le> pcm x \<and> pcm x \<le> 32767"
  by (simp add: pcm_def toInt16_range)

lemma uint_byte_of_int: "uint (of_int p :: byte) = p mod 256"
  by (simp add: uint_word_of_int)

lemma int_bytes16: "p mod 256 + 256 * (p div 256 mod 256) = p mod 65536" for p :: int
  using zmod_zmult2_eq [of 256 p 256] by simp

lemma getUint32_skip:
  "length xs \<le> off \<Longrightarrow> getUint32 (xs @ ys) off = getUint32 ys (off - length xs)"
  by (simp add: getUint32_def nth_append Suc_diff_le numeral_3_eq_3)

lemma getUint16_skip:
  "length xs \<le> off \<Longrightarrow> getUint16 (xs @ ys) off = getUint16 ys (off - length xs)"
  by (simp add: getUint16_def nth_append Suc_diff_le)

lemma getBytes_skip:
  "length xs \<le> off \<Longrightarrow> getBytes (xs @ ys) off n = getBytes ys (off - length xs) n"
  by (simp add: getBytes_def)

lemma getUint32_here: "getUint32 (le32 v @ post) 0 = v mod 4294967296"
  using getUint32_le32 [of "[]" v post] by simp

lemma getUint16_here: "getUint16 (le16 v @ post) 0 = v mod 65536"
  using getUint16_le16 [of "[]" v post] by simp

lemma getBytes_here: "length xs = n \<Longrightarrow> getBytes (xs @ ys) 0 n = xs"
  by (simp add: getBytes_def)

lemmas header_simps =
  wavHeader_def getUint32_skip getUint16_skip getBytes_skip getUint32_here getUint16_here
  getBytes_here length_charCodes length_le16 length_le32

lemma header_uint32:
  "getUint32 (wavHeader b @ d) 4 = (36 + dataBytes b) mod 4294967296"
  "getUint32 (wavHeader b @ d) 16 = 16"
  "getUint32 (wavHeader b @ d) 24 = sampleRate_buf b mod 4294967296"
  "getUint32 (wavHeader b @ d) 28 = (sampleRate_buf b * 2 * numberOfChannels b) mod 4294967296"
  "getUint32 (wavHeader b @ d) 40 = dataBytes b mod 4294967296"
  by (simp_all add: header_simps)

lemma header_uint16:
  "getUint16 (wavHeader b @ d) 20 = 1"
  "getUint16 (wavHeader b @ d) 22 = numberOfChannels b mod 65536"
  "getUint16 (wavHeader b @ d) 32 = (numberOfChannels b * 2) mod 65536"
  "getUint16 (wavHeader b @ d) 34 = 16"
  by (simp_all add: header_simps)

lemma header_tags:
  "getBytes (wavHeader b @ d) 0 4 = charCodes ''RIFF''"
  "getBytes (wavHeader b @ d) 8 4 = charCodes ''WAVE''"
  "getBytes (wavHeader b @ d) 12 4 = charCodes ''fmt ''"
  "getBytes (wavHeader b @ d) 36 4 = charCodes ''data''"
  by (simp_all add: header_simps)

lemma concat_nth_block:
  assumes "\<And>j. length (f j) = n" "i < m" "r < n"
  shows "concat (map f [0..<m]) ! (i * n + r) = f i ! r"
  using assms(2)
proof (induction m)
  case 0
  then show ?case by simp
next
  case (Suc m)
  have len: "length (concat (map f [0..<m])) = m * n"
    by (induction m) (simp_all add: assms(1))
  show ?case
  proof (cases "i < m")
    case True
    then have "i * n + r < m * n"
      using assms(3) by (metis Suc_leI add.commute mult_Suc mult_le_mono1 add_less_mono1 less_le_trans nat_add_left_cancel_less)
    with True Suc.IH show ?thesis by (simp add: nth_append len)
  next
    case False
    with Suc.prems have "i = m" by simp
    then show ?thesis by (simp add: nth_append len)
  qed
qed

lemma getInt16_of_bytes:
  assumes "bytes ! off = of_int p" "bytes ! (off + 1) = of_int (p div 256)"
    and r: "- 32768 \<le> p" "p \<le> 32767"
  shows "getInt16 bytes off = p"
proof -
  have "int (getUint16 bytes off) = p mod 256 + 256 * (p div 256 mod 256)"
    using assms(1,2) by (simp add: getUint16_def uint_byte_of_int)
  then have u: "int (getUint16 bytes off) = p mod 65536"
    by (simp only: int_bytes16)
  show ?thesis
  proof (cases "p < 0")
    case True
    have "(p + 65536) mod 65536 = p + 65536"
      using r True by (intro mod_pos_pos_trivial) simp_all
    then have "p mod 65536 = p + 65536" by simp
    with True r show ?thesis by (simp add: getInt16_def u)
  next
    case False
    with r have "p mod 65536 = p" by simp
    with False r show ?thesis by (simp add: getInt16_def u)
  qed
qed

lemma frameBytes_nth:
  assumes "channel < numberOfChannels b" "r < 2"
  shows "frameBytes b i ! (channel * 2 + r) = sampleBytes (channelData b channel i) ! r"
  unfolding frameBytes_def
  by (rule concat_nth_block) (simp_all add: length_sampleBytes assms)

lemma wavData_nth:
  assumes "i < length_buf b" "channel < numberOfChannels b" "r < 2"
  shows "wavData b ! (2 * (i * numberOfChannels b + channel) + r)
         = sampleBytes (channelData b channel i) ! r"
proof -
  have k: "channel * 2 + r < 2 * numberOfChannels b"
    using assms(2,3) by simp
  have "wavData b ! (i * (2 * numberOfChannels b) + (channel * 2 + r))
        = frameBytes b i ! (channel * 2 + r)"
    unfolding wavData_def
    by (rule concat_nth_block) (simp_all add: length_frameBytes assms(1) k)
  also have "\<dots> = sampleBytes (channelData b channel i) ! r"
    by (rule frameBytes_nth) (rule assms)+
  finally show ?thesis by (simp add: algebra_simps)
qed

lemma getInt16_wav:
  assumes "i < length_buf b" "channel < numberOfChannels b"
  shows "getInt16 (wavHeader b @ wavData b) (44 + 2 * (i * numberOfChannels b + channel))
         = pcm (channelData b channel i)"
proof (rule getInt16_of_bytes)
  let ?k = "2 * (i * numberOfChannels b + channel)"
  show "(wavHeader b @ wavData b) ! (44 + ?k) = of_int (pcm (channelData b channel i))"
    using wavData_nth [OF assms, of 0]
    by (simp add: nth_append length_wavHeader sampleBytes_def)
  show "(wavHeader b @ wavData b) ! (44 + ?k + 1) = of_int (pcm (channelData b channel i) div 256)"
    using wavData_nth [OF assms, of 1]
    by (simp add: nth_append length_wavHeader sampleBytes_def)
qed (simp_all add: pcm_range)

lemma trunc_range:
  assumes "- 32768 \<le> v" "v \<le> 32767"
  shows "- 32768 \<le> trunc v \<and> trunc v \<le> 32767"
proof (cases "v < 0")
  case True
  then have "\<lceil>v\<rceil> \<le> 0" by (simp add: ceiling_le_iff)
  moreover have "- 32768 \<le> \<lceil>v\<rceil>" using assms(1) by (simp add: le_ceiling_iff)
  ultimately show ?thesis using True by (simp add: trunc_def)
next
  case False
  then have "0 \<le> \<lfloor>v\<rfloor>" by simp
  moreover have "\<lfloor>v\<rfloor> \<le> 32767" using assms(2) by (simp add: floor_le_iff)
  ultimately show ?thesis using False by (simp add: trunc_def)
qed

lemma toInt16_exact:
  assumes "- 32768 \<le> v" "v \<le> 32767"
  shows "toInt16 (Num v) = trunc v"
proof -
  from trunc_range [OF assms] have "0 \<le> trunc v + 32768" "trunc v + 32768 < 65536"
    by simp_all
  then have "(trunc v + 32768) mod 65536 = trunc v + 32768"
    by (rule mod_pos_pos_trivial)
  then show ?thesis by simp
qed

lemma pcm_Num:
  "pcm (Num r) = trunc (if max (- 1) (min 1 r) < 0 then max (- 1) (min 1 r) * 32768
                          else max (- 1) (min 1 r) * 32767)"
proof -
  let ?c = "max (- 1) (min 1 r)"
  have c: "- 1 \<le> ?c" "?c \<le> 1" by simp_all
  let ?v = "if ?c < 0 then ?c * 32768 else ?c * 32767"
  have "- 32768 \<le> ?v \<and> ?v \<le> 32767"
    using c by (auto simp: min_def max_def)
  then have "toInt16 (Num ?v) = trunc ?v" by (intro toInt16_exact) simp_all
  then show ?thesis by (simp add: pcm_def clampSample_def)
qed

lemma pcm_special: "pcm PosInf = 32767" "pcm NegInf = - 32768" "pcm NaN = 0"
  by (simp_all add: pcm_def clampSample_def trunc_def)

section \<open>Facts about the layers\<close>

lemma harmonyNote_string:
  "includesStr lowerDesc ''string'' \<Longrightarrow>
   harmonyNote lowerDesc bd scale0 time noteOffset =
     [\<lparr>oscType = harmonyOscType lowerDesc, detune = - 5,
       frequency = baseFreq * 2 powr (real (noteOffset + scale0) / 12),
       startTime = time, stopTime = time + bd * 4\<rparr>,
      \<lparr>oscType = harmonyOscType lowerDesc, detune = 5,
       frequency = baseFreq * 2 powr (real (noteOffset + scale0) / 12),
       startTime = time, stopTime = time + bd * 4\<rparr>]"
  by (simp add: harmonyNote_def)

lemma harmonyNote_unison:
  "\<not> includesStr lowerDesc ''string'' \<Longrightarrow>
   harmonyNote lowerDesc bd scale0 time noteOffset =
     replicate 3 \<lparr>oscType = harmonyOscType lowerDesc, detune = 0,
       frequency = baseFreq * 2 powr (real (noteOffset + scale0) / 12),
       startTime = time, stopTime = time + bd * 4\<rparr>"
  by (simp add: harmonyNote_def numeral_3_eq_3)

lemma length_harmonyNote:
  "length (harmonyNote lowerDesc bd scale0 time noteOffset)
   = (if includesStr lowerDesc ''string'' then 2 else 3)"
  by (simp add: harmonyNote_string harmonyNote_unison)

lemma length_harmonyChord:
  "length (harmonyChord lowerDesc bd scale0 i chord)
   = length chord * (if includesStr lowerDesc ''string'' then 2 else 3)"
  by (induction chord) (simp_all add: harmonyChord_def Let_def length_harmonyNote)

lemma scale_cases:
  "scale lowerDesc \<in> {[0, 2, 4, 5, 7, 9, 11], [0, 2, 3, 5, 7, 8, 10], [0, 1, 4, 5, 8, 9], [0, 2, 4, 7, 9]}"
  by (simp add: scale_def)

lemma scale_head: "\<exists>rest. scale lowerDesc = 0 # rest"
  by (simp add: scale_def)

lemma chordProgression_cases:
  "chordProgression lowerDesc = [[0, 3, 7], [8, 0, 3], [3, 7, 10], [10, 2, 5]]
   \<or> chordProgression lowerDesc = [[0, 4, 7], [7, 11, 2], [9, 0, 4], [5, 9, 0]]"
  by (simp add: chordProgression_def)

lemma createHarmony_parsed:
  assumes "b \<noteq> 0"
  shows "createHarmony lowerDesc (chordProgression d) b (scale d') =
     Inr (concat (map (\<lambda>(i, chord). harmonyChord lowerDesc (beatDuration b) 0 i chord)
            (enumerate 0 (chordProgression d))))"
proof -
  obtain rest where s: "scale d' = 0 # rest" using scale_head by blast
  have "concat (chordProgression d) \<noteq> []"
    using chordProgression_cases [of d] by auto
  then have "createHarmony lowerDesc (chordProgression d) b (0 # rest) =
     Inr (concat (map (\<lambda>(i, chord). harmonyChord lowerDesc (beatDuration b) 0 i chord)
            (enumerate 0 (chordProgression d))))"
    unfolding createHarmony_def using assms by (simp only: if_False list.case)
  then show ?thesis by (simp only: s)
qed

lemma createHarmony_zero:
  "createHarmony lowerDesc (chordProgression d) 0 sc = Inl TypeError"
proof -
  have "concat (chordProgression d) \<noteq> []"
    using chordProgression_cases [of d] by auto
  then show ?thesis unfolding createHarmony_def by (simp only: if_False if_True refl)
qed

lemma length_createHarmony:
  assumes "b \<noteq> 0"
  shows "\<exists>oscs. createHarmony lowerDesc (chordProgression d) b (scale d') = Inr oscs
     \<and> length oscs = 12 * (if includesStr lowerDesc ''string'' then 2 else 3)"
  using chordProgression_cases [of d]
  by (auto simp: createHarmony_parsed [OF assms] length_harmonyChord)










lemma createBass_parsed:
  assumes "b \<noteq> 0"
  shows "createBass lowerDesc (chordProgression d) b (scale d') =
     Inr (map (\<lambda>(i, chord).
            \<lparr>oscType = bassOscType lowerDesc, detune = 0,
              frequency = (baseFreq / 2) * 2 powr (real (hd chord) / 12),
              startTime = real i * beatDuration b * 4,
              stopTime = real i * beatDuration b * 4 + beatDuration b * 4\<rparr>)
          (enumerate 0 (chordProgression d)))"
proof -
  obtain rest where s: "scale d' = 0 # rest" using scale_head by blast
  show ?thesis
    using chordProgression_cases [of d] assms
    by (auto simp: createBass_def s bassChord_def)
qed

lemma drumLoop_heartbeat:
  "includesStr lowerDesc ''heartbeat'' \<Longrightarrow>
   drumLoop rng lowerDesc bd is k = (map (\<lambda>i. Kick (real i * bd)) is, k)"
  by (induction "is") (simp_all add: drumBeat_def)

lemma createDrums_heartbeat:
  "includesStr lowerDesc ''heartbeat'' \<Longrightarrow>
   createDrums rng1 lowerDesc b k = createDrums rng2 lowerDesc b k"
  by (simp add: createDrums_def drumLoop_heartbeat)

lemma generateAudioPreview_unfold:
  "generateAudioPreview rng description =
     (let lowerDesc = toLowerCase description;
          k0 = 2 * (2 * sampleRate);
          drums = (if enableDrums lowerDesc
                   then Some (fst (createDrums rng lowerDesc (bpm lowerDesc) k0)) else None);
          k1 = (if enableDrums lowerDesc
                then snd (createDrums rng lowerDesc (bpm lowerDesc) k0) else k0)
      in andThen (harmonyPart lowerDesc) (\<lambda>harmony.
         andThen (bassPart lowerDesc) (\<lambda>bass.
         andThen (if enableMelody lowerDesc
                  then map_sum id (\<lambda>(notes, k). Some notes)
                         (createMelody rng lowerDesc (bpm lowerDesc) (scale lowerDesc) k1)
                  else Inr None) (\<lambda>melody.
           Inr \<lparr>reverbImpulse = (if enableReverb lowerDesc
                                  then Some (fst (createImpulse rng 0)) else None),
                delayLine = enableDelay lowerDesc,
                drumsLayer = drums, harmonyLayer = harmony,
                bassLayer = bass, melodyLayer = melody\<rparr>))))"
  by (auto simp: generateAudioPreview_def createImpulse_def Let_def split_def andThen_def
      harmonyPart_def bassPart_def split: sum.splits)

lemma generateAudioPreview_no_random:
  assumes "\<not> enableMelody (toLowerCase description)"
    and "\<not> enableReverb (toLowerCase description)"
    and "enableDrums (toLowerCase description)
         \<longrightarrow> includesStr (toLowerCase description) ''heartbeat''"
  shows "generateAudioPreview rng1 description = generateAudioPreview rng2 description"
proof (cases "enableDrums (toLowerCase description)")
  case True
  with assms(3) have "includesStr (toLowerCase description) ''heartbeat''" by simp
  from createDrums_heartbeat [OF this, of rng1 _ _ rng2]
  have "createDrums rng1 (toLowerCase description) = createDrums rng2 (toLowerCase description)"
    by (intro ext)
  with assms(1,2) show ?thesis
    by (simp add: generateAudioPreview_unfold Let_def cong: if_cong)
next
  case False
  with assms(1,2) show ?thesis by (simp add: generateAudioPreview_unfold)
qed

lemma generateAudioPreview_layers:
  assumes "generateAudioPreview rng description = Inr g"
  shows "harmonyPart (toLowerCase description) = Inr (harmonyLayer g)"
    and "bassPart (toLowerCase description) = Inr (bassLayer g)"
    and "delayLine g = enableDelay (toLowerCase description)"
    and "drumsLayer g = (if enableDrums (toLowerCase description)
           then Some (fst (createDrums rng (toLowerCase description)
                             (bpm (toLowerCase description)) (2 * (2 * sampleRate))))
           else None)"
  using assms
  by (auto simp: generateAudioPreview_unfold Let_def andThen_def split: sum.splits if_splits)

lemma generateAudioPreview_Inr:
  assumes "\<not> enableMelody (toLowerCase description)" and "bpm (toLowerCase description) \<noteq> 0"
  shows "\<exists>g. generateAudioPreview rng description = Inr g"
proof -
  let ?d = "toLowerCase description"
  from createHarmony_parsed [OF assms(2), of ?d ?d ?d]
  obtain h where h: "harmonyPart ?d = Inr h"
    by (cases "enableHarmony ?d") (simp_all add: harmonyPart_def)
  from createBass_parsed [OF assms(2), of ?d ?d ?d]
  obtain b where b: "bassPart ?d = Inr b"
    by (cases "enableBass ?d") (simp_all add: bassPart_def)
  show ?thesis
    using assms(1) by (simp add: generateAudioPreview_unfold h b andThen_def Let_def)
qed

lemma drumLoop_second:
  assumes "\<not> includesStr lowerDesc ''heartbeat''"
  shows "fst (drumLoop rng lowerDesc bd (0 # 1 # is) k) ! 1
         = Snare bd (map (\<lambda>j. rng (k + j) * 2 - 1) [0..<snareLength])"
  using assms by (simp add: drumBeat_def split_def Let_def)

lemma createDrums_second:
  assumes "\<not> includesStr lowerDesc ''heartbeat''"
  shows "fst (createDrums rng lowerDesc 120 k) ! 1
         = Snare (1 / 2) (map (\<lambda>j. rng (k + j) * 2 - 1) [0..<snareLength])"
proof -
  have lc: "loopCount (real duration / beatDuration 120) = 20"
    by (simp add: loopCount_def duration_def beatDuration_def)
  have u: "[0..<20] = 0 # 1 # [2..<20]"
    by (simp add: upt_conv_Cons)
  have bd: "beatDuration 120 = 1 / 2" by (simp add: beatDuration_def)
  have "createDrums rng lowerDesc 120 k
        = drumLoop rng lowerDesc (beatDuration 120)
            [0..<loopCount (real duration / beatDuration 120)] k"
    by (simp add: createDrums_def)
  also have "\<dots> = drumLoop rng lowerDesc (1 / 2) (0 # 1 # [2..<20]) k"
    unfolding lc unfolding bd u ..
  finally show ?thesis
    by (simp only: drumLoop_second [OF assms])
qed

section \<open>The claims about the encoder\<close>

text \<open>
  Claim C4. For every buffer whose sizes fit the header's fields, as the rendered buffer's
  do (2 channels, 441000 frames, 44100 Hz), and whose output block the platform allocates,
  the encoder returns a byte sequence of
  exactly \<open>44 + dataBytes\<close> bytes with \<open>dataBytes = totalSamples * numChannels * 2\<close>, whose
  44-byte header holds, little-endian: the tag RIFF, \<open>chunkSize = 36 + dataBytes\<close>, the tags
  WAVE and fmt, \<open>fmtChunkSize = 16\<close>, \<open>audioFormat = 1\<close>, the channel count, the sample rate,
  \<open>byteRate = sampleRate * numChannels * 2\<close>, \<open>blockAlign = numChannels * 2\<close>,
  \<open>bitsPerSample = 16\<close>, the tag data, and \<open>dataBytes\<close>.
\<close>

theorem wav_header_fields:
  assumes "numberOfChannels b * 2 < 65536"
    and "36 + dataBytes b < 4294967296"
    and "sampleRate_buf b < 4294967296"
    and "sampleRate_buf b * numberOfChannels b * 2 < 4294967296"
    and "canAllocate (44 + dataBytes b)"
  shows "\<exists>bytes. bufferToWav canAllocate b = Inr bytes
     \<and> dataBytes b = length_buf b * numberOfChannels b * 2
     \<and> length bytes = 44 + dataBytes b
     \<and> getBytes bytes 0 4 = charCodes ''RIFF''
     \<and> getUint32 bytes 4 = 36 + dataBytes b
     \<and> getBytes bytes 8 4 = charCodes ''WAVE''
     \<and> getBytes bytes 12 4 = charCodes ''fmt ''
     \<and> getUint32 bytes 16 = 16
     \<and> getUint16 bytes 20 = 1
     \<and> getUint16 bytes 22 = numberOfChannels b
     \<and> getUint32 bytes 24 = sampleRate_buf b
     \<and> getUint32 bytes 28 = sampleRate_buf b * numberOfChannels b * 2
     \<and> getUint16 bytes 32 = numberOfChannels b * 2
     \<and> getUint16 bytes 34 = 16
     \<and> getBytes bytes 36 4 = charCodes ''data''
     \<and> getUint32 bytes 40 = dataBytes b"
proof -
  let ?bytes = "wavHeader b @ wavData b"
  have "44 + dataBytes b \<le> maxByteLength"
    using assms(2) by (simp add: maxByteLength_def)
  then have "bufferToWav canAllocate b = Inr ?bytes"
    using assms(5) by (rule bufferToWav_eq)
  moreover have "length ?bytes = 44 + dataBytes b"
    by (simp add: length_wavHeader length_wavData)
  moreover have "getUint32 ?bytes 4 = 36 + dataBytes b"
    using assms(2) by (simp add: header_uint32)
  moreover have "getUint16 ?bytes 22 = numberOfChannels b"
    using assms(1) by (simp add: header_uint16)
  moreover have "getUint32 ?bytes 24 = sampleRate_buf b"
    using assms(3) by (simp add: header_uint32)
  moreover have "getUint32 ?bytes 28 = sampleRate_buf b * numberOfChannels b * 2"
    using assms(4) by (simp add: header_uint32 mult.commute mult.left_commute)
  moreover have "getUint16 ?bytes 32 = numberOfChannels b * 2"
    using assms(1) by (simp add: header_uint16)
  moreover have "getUint32 ?bytes 40 = dataBytes b"
    using assms(2) by (simp add: header_uint32)
  ultimately show ?thesis
    by (simp add: header_uint32 header_uint16 header_tags dataBytes_def)
qed

theorem wav_header_fields_witness:
  "numberOfChannels renderedBuffer * 2 < 65536
   \<and> 36 + dataBytes renderedBuffer < 4294967296
   \<and> sampleRate_buf renderedBuffer < 4294967296
   \<and> sampleRate_buf renderedBuffer * numberOfChannels renderedBuffer * 2 < 4294967296
   \<and> allocatesUpTo 2147483647 (44 + dataBytes renderedBuffer)
   \<and> (\<exists>bytes. bufferToWav (allocatesUpTo 2147483647) renderedBuffer = Inr bytes
        \<and> length bytes = 1764044
        \<and> getUint32 bytes 4 = 1764036
        \<and> getUint16 bytes 22 = 2
        \<and> getUint32 bytes 24 = 44100
        \<and> getUint32 bytes 28 = 176400
        \<and> getUint16 bytes 32 = 4
        \<and> getUint32 bytes 40 = 1764000)"
proof -
  have d: "dataBytes renderedBuffer = 1764000"
    by (simp add: dataBytes_def renderedBuffer_def sampleRate_def duration_def)
  have h: "numberOfChannels renderedBuffer * 2 < 65536"
    "36 + dataBytes renderedBuffer < 4294967296"
    "sampleRate_buf renderedBuffer < 4294967296"
    "sampleRate_buf renderedBuffer * numberOfChannels renderedBuffer * 2 < 4294967296"
    "allocatesUpTo 2147483647 (44 + dataBytes renderedBuffer)"
    by (simp_all add: d allocatesUpTo_def) (simp_all add: renderedBuffer_def sampleRate_def)
  from wav_header_fields [where canAllocate = "allocatesUpTo 2147483647", OF h]
  obtain bytes where
    "bufferToWav (allocatesUpTo 2147483647) renderedBuffer = Inr bytes"
    "length bytes = 44 + dataBytes renderedBuffer"
    "getUint32 bytes 4 = 36 + dataBytes renderedBuffer"
    "getUint16 bytes 22 = numberOfChannels renderedBuffer"
    "getUint32 bytes 24 = sampleRate_buf renderedBuffer"
    "getUint32 bytes 28 = sampleRate_buf renderedBuffer * numberOfChannels renderedBuffer * 2"
    "getUint16 bytes 32 = numberOfChannels renderedBuffer * 2"
    "getUint32 bytes 40 = dataBytes renderedBuffer"
    by blast
  then have "bufferToWav (allocatesUpTo 2147483647) renderedBuffer = Inr bytes
        \<and> length bytes = 1764044
        \<and> getUint32 bytes 4 = 1764036
        \<and> getUint16 bytes 22 = 2
        \<and> getUint32 bytes 24 = 44100
        \<and> getUint32 bytes 28 = 176400
        \<and> getUint16 bytes 32 = 4
        \<and> getUint32 bytes 40 = 1764000"
    by (simp add: d) (simp add: renderedBuffer_def sampleRate_def)
  then show ?thesis using h by blast
qed

text \<open>
  Claim C5, as amended. For every buffer that is encoded (its output block is allocated)
  and every sample in it, the 16-bit value written for the sample, read back at the
  sample's place in the interleaved data, lies in \<open>[-32768, 32767]\<close>. A finite sample \<open>r\<close>
  is first clamped to \<open>c = max (-1) (min 1 r)\<close>, plus infinity to 1 and minus infinity to
  -1, and the value written is \<open>c\<close> times 32768 when \<open>c\<close> is negative and \<open>c\<close> times 32767
  otherwise, truncated towards zero, with no wrap-around. A \<open>NaN\<close> sample is not clamped:
  it passes through \<open>Math.min\<close> and \<open>Math.max\<close> and is written as 0.
\<close>

theorem pcm_clamped_in_range:
  assumes "i < length_buf b" and "channel < numberOfChannels b"
    and "44 + dataBytes b \<le> maxByteLength" and "canAllocate (44 + dataBytes b)"
  shows "\<exists>bytes. bufferToWav canAllocate b = Inr bytes
     \<and> getInt16 bytes (44 + 2 * (i * numberOfChannels b + channel)) = pcm (channelData b channel i)
     \<and> - 32768 \<le> pcm (channelData b channel i) \<and> pcm (channelData b channel i) \<le> 32767
     \<and> (channelData b channel i \<noteq> NaN \<longrightarrow>
          (\<exists>c. clampSample (channelData b channel i) = Num c \<and> - 1 \<le> c \<and> c \<le> 1
             \<and> (\<forall>r. channelData b channel i = Num r \<longrightarrow> c = max (- 1) (min 1 r))
             \<and> (channelData b channel i = PosInf \<longrightarrow> c = 1)
             \<and> (channelData b channel i = NegInf \<longrightarrow> c = - 1)
             \<and> pcm (channelData b channel i) = trunc (if c < 0 then c * 32768 else c * 32767)))
     \<and> (channelData b channel i = PosInf \<longrightarrow> pcm (channelData b channel i) = 32767)
     \<and> (channelData b channel i = NegInf \<longrightarrow> pcm (channelData b channel i) = - 32768)
     \<and> (channelData b channel i = NaN \<longrightarrow>
          clampSample (channelData b channel i) = NaN
          \<and> intSample (clampSample (channelData b channel i)) = NaN
          \<and> pcm (channelData b channel i) = 0)"
proof -
  let ?x = "channelData b channel i"
  have "bufferToWav canAllocate b = Inr (wavHeader b @ wavData b)"
    using assms(3,4) by (rule bufferToWav_eq)
  moreover have "getInt16 (wavHeader b @ wavData b) (44 + 2 * (i * numberOfChannels b + channel))
                 = pcm ?x"
    using assms(1,2) by (rule getInt16_wav)
  moreover have "?x \<noteq> NaN \<longrightarrow>
          (\<exists>c. clampSample ?x = Num c \<and> - 1 \<le> c \<and> c \<le> 1
             \<and> (\<forall>r. ?x = Num r \<longrightarrow> c = max (- 1) (min 1 r))
             \<and> (?x = PosInf \<longrightarrow> c = 1)
             \<and> (?x = NegInf \<longrightarrow> c = - 1)
             \<and> pcm ?x = trunc (if c < 0 then c * 32768 else c * 32767))"
  proof (cases ?x)
    case (Num r)
    then show ?thesis by (simp add: pcm_Num clampSample_def)
  next
    case PosInf
    then show ?thesis by (simp add: pcm_special clampSample_def trunc_def)
  next
    case NegInf
    then show ?thesis by (simp add: pcm_special clampSample_def trunc_def)
  next
    case NaN
    then show ?thesis by simp
  qed
  moreover have "?x = PosInf \<longrightarrow> pcm ?x = 32767" by (simp add: pcm_special)
  moreover have "?x = NegInf \<longrightarrow> pcm ?x = - 32768" by (simp add: pcm_special)
  moreover have "?x = NaN \<longrightarrow>
      clampSample ?x = NaN \<and> intSample (clampSample ?x) = NaN \<and> pcm ?x = 0"
    by (simp add: pcm_special clampSample_def)
  ultimately show ?thesis using pcm_range [of ?x] by blast
qed

theorem pcm_clamped_in_range_witness:
  "(2 :: nat) < length_buf sampleBuffer \<and> (1 :: nat) < numberOfChannels sampleBuffer
   \<and> 44 + dataBytes sampleBuffer \<le> maxByteLength
   \<and> allocatesUpTo 2147483647 (44 + dataBytes sampleBuffer)
   \<and> (\<exists>bytes. bufferToWav (allocatesUpTo 2147483647) sampleBuffer = Inr bytes
        \<and> getInt16 bytes 54 = - 32768)
   \<and> clampSample (channelData sampleBuffer 1 2) = Num (- 1)
   \<and> pcm (channelData sampleBuffer 1 2) = - 32768"
proof -
  have h: "(2 :: nat) < length_buf sampleBuffer" "(1 :: nat) < numberOfChannels sampleBuffer"
    "44 + dataBytes sampleBuffer \<le> maxByteLength"
    "allocatesUpTo 2147483647 (44 + dataBytes sampleBuffer)"
    by (simp_all add: sampleBuffer_def dataBytes_def maxByteLength_def allocatesUpTo_def)
  have x: "channelData sampleBuffer 1 2 = Num (- 2)"
    by (simp add: sampleBuffer_def)
  from pcm_clamped_in_range [where canAllocate = "allocatesUpTo 2147483647", OF h]
  obtain bytes c where
    b: "bufferToWav (allocatesUpTo 2147483647) sampleBuffer = Inr bytes"
      "getInt16 bytes (44 + 2 * (2 * numberOfChannels sampleBuffer + 1))
       = pcm (channelData sampleBuffer 1 2)"
      "clampSample (channelData sampleBuffer 1 2) = Num c"
      "\<forall>r. channelData sampleBuffer 1 2 = Num r \<longrightarrow> c = max (- 1) (min 1 r)"
      "pcm (channelData sampleBuffer 1 2) = trunc (if c < 0 then c * 32768 else c * 32767)"
    unfolding x by blast
  from b(4) x have c: "c = - 1" by simp
  have p: "pcm (channelData sampleBuffer 1 2) = - 32768"
    using b(5) by (simp add: c trunc_def)
  have n: "numberOfChannels sampleBuffer = 2" by (simp add: sampleBuffer_def)
  have g: "getInt16 bytes 54 = - 32768" using b(2) p by (simp add: n)
  show ?thesis using h b(1) g b(3) c p by blast
qed

text \<open>
  The claim as stated, every sample clamped to \<open>[-1, 1]\<close>, fails at a \<open>NaN\<close> sample: the
  clamped value and the scaled value are \<open>NaN\<close>, and 0 is written.
\<close>

theorem nan_sample_counterexample:
  "(0 :: nat) < length_buf nanBuffer \<and> (0 :: nat) < numberOfChannels nanBuffer
   \<and> channelData nanBuffer 0 0 = NaN
   \<and> clampSample (channelData nanBuffer 0 0) = NaN
   \<and> intSample (clampSample (channelData nanBuffer 0 0)) = NaN
   \<and> bufferToWav (allocatesUpTo 2147483647) nanBuffer
       = Inr (wavHeader nanBuffer @ wavData nanBuffer)
   \<and> getInt16 (wavHeader nanBuffer @ wavData nanBuffer) 44 = 0"
proof -
  have h: "(0 :: nat) < length_buf nanBuffer" "(0 :: nat) < numberOfChannels nanBuffer"
    by (simp_all add: nanBuffer_def)
  have x: "channelData nanBuffer 0 0 = NaN" by (simp add: nanBuffer_def)
  have a: "44 + dataBytes nanBuffer \<le> maxByteLength"
    "allocatesUpTo 2147483647 (44 + dataBytes nanBuffer)"
    by (simp_all add: nanBuffer_def dataBytes_def maxByteLength_def allocatesUpTo_def)
  have e: "bufferToWav (allocatesUpTo 2147483647) nanBuffer
           = Inr (wavHeader nanBuffer @ wavData nanBuffer)"
    using a by (rule bufferToWav_eq)
  have "getInt16 (wavHeader nanBuffer @ wavData nanBuffer)
          (44 + 2 * (0 * numberOfChannels nanBuffer + 0)) = pcm (channelData nanBuffer 0 0)"
    using h by (rule getInt16_wav)
  then have g: "getInt16 (wavHeader nanBuffer @ wavData nanBuffer) 44 = 0"
    by (simp add: x pcm_special)
  show ?thesis using h e g by (simp add: x clampSample_def)
qed

text \<open>
  Claim C9, as amended. The encoder does not check the widths of the header fields. For
  every buffer whose output block of \<open>44 + dataBytes\<close> bytes is allocated (at most
  \<open>2 ^ 53 - 1\<close> bytes, and provided by the platform), it returns that many bytes without an
  error, and the channel count, the block alignment, the chunk size and the data size
  are written reduced modulo the width of their field (\<open>2 ^ 16\<close> or \<open>2 ^ 32\<close>): exact within
  the widths, truncated beyond them. For every other buffer it throws the RangeError of
  the failed allocation, which is the only error it signals.
\<close>

theorem encoder_truncates_or_fails_to_allocate:
  "(44 + dataBytes b \<le> maxByteLength \<and> canAllocate (44 + dataBytes b)
      \<longrightarrow> (\<exists>bytes. bufferToWav canAllocate b = Inr bytes
            \<and> length bytes = 44 + dataBytes b
            \<and> getUint32 bytes 4 = (36 + dataBytes b) mod 4294967296
            \<and> getUint16 bytes 22 = numberOfChannels b mod 65536
            \<and> getUint16 bytes 32 = (numberOfChannels b * 2) mod 65536
            \<and> getUint32 bytes 40 = dataBytes b mod 4294967296))
   \<and> (maxByteLength < 44 + dataBytes b \<or> \<not> canAllocate (44 + dataBytes b)
      \<longrightarrow> bufferToWav canAllocate b = Inl RangeError)"
proof (intro conjI impI)
  assume a: "44 + dataBytes b \<le> maxByteLength \<and> canAllocate (44 + dataBytes b)"
  then have "bufferToWav canAllocate b = Inr (wavHeader b @ wavData b)"
    by (intro bufferToWav_eq) simp_all
  moreover have "length (wavHeader b @ wavData b) = 44 + dataBytes b"
    by (simp add: length_wavHeader length_wavData)
  ultimately show "\<exists>bytes. bufferToWav canAllocate b = Inr bytes
            \<and> length bytes = 44 + dataBytes b
            \<and> getUint32 bytes 4 = (36 + dataBytes b) mod 4294967296
            \<and> getUint16 bytes 22 = numberOfChannels b mod 65536
            \<and> getUint16 bytes 32 = (numberOfChannels b * 2) mod 65536
            \<and> getUint32 bytes 40 = dataBytes b mod 4294967296"
    by (simp add: header_uint32 header_uint16)
next
  assume "maxByteLength < 44 + dataBytes b \<or> \<not> canAllocate (44 + dataBytes b)"
  then show "bufferToWav canAllocate b = Inl RangeError"
    by (rule bufferToWav_RangeError)
qed

theorem encoder_truncates_or_fails_to_allocate_witness:
  "44 + dataBytes renderedBuffer \<le> maxByteLength
   \<and> allocatesUpTo 2147483647 (44 + dataBytes renderedBuffer)
   \<and> (\<exists>bytes. bufferToWav (allocatesUpTo 2147483647) renderedBuffer = Inr bytes
        \<and> length bytes = 1764044 \<and> getUint16 bytes 32 = 4 \<and> getUint32 bytes 40 = 1764000)
   \<and> \<not> allocatesUpTo 2147483647 (44 + dataBytes longBuffer)
   \<and> bufferToWav (allocatesUpTo 2147483647) longBuffer = Inl RangeError"
proof -
  have d: "dataBytes renderedBuffer = 1764000"
    by (simp add: dataBytes_def renderedBuffer_def sampleRate_def duration_def)
  have n: "numberOfChannels renderedBuffer = 2" by (simp add: renderedBuffer_def)
  have h: "44 + dataBytes renderedBuffer \<le> maxByteLength"
    "allocatesUpTo 2147483647 (44 + dataBytes renderedBuffer)"
    by (simp_all add: d maxByteLength_def allocatesUpTo_def)
  have l: "\<not> allocatesUpTo 2147483647 (44 + dataBytes longBuffer)"
    by (simp add: dataBytes_def longBuffer_def allocatesUpTo_def)
  from encoder_truncates_or_fails_to_allocate [of renderedBuffer "allocatesUpTo 2147483647"] h
  obtain bytes where
    "bufferToWav (allocatesUpTo 2147483647) renderedBuffer = Inr bytes"
    "length bytes = 44 + dataBytes renderedBuffer"
    "getUint16 bytes 32 = (numberOfChannels renderedBuffer * 2) mod 65536"
    "getUint32 bytes 40 = dataBytes renderedBuffer mod 4294967296"
    by blast
  then have r: "\<exists>bytes. bufferToWav (allocatesUpTo 2147483647) renderedBuffer = Inr bytes
        \<and> length bytes = 1764044 \<and> getUint16 bytes 32 = 4 \<and> getUint32 bytes 40 = 1764000"
    by (simp add: d n)
  have e: "bufferToWav (allocatesUpTo 2147483647) longBuffer = Inl RangeError"
    using encoder_truncates_or_fails_to_allocate [of longBuffer "allocatesUpTo 2147483647"] l
    by blast
  show ?thesis using h r l e by blast
qed

text \<open>
  The claim as stated fails: with 32768 channels the block alignment \<open>65536\<close> is written
  as 0, on a platform that allocates the 65580 bytes; and with \<open>2 ^ 30\<close> stereo frames the
  data size \<open>2 ^ 32\<close> is written as 0, on a platform that allocates the 4 GiB and 44 bytes.
  Both buffers are encoded, none is refused.
\<close>

theorem encoder_overflow_counterexample:
  "65536 \<le> numberOfChannels wideBuffer * 2
   \<and> bufferToWav (allocatesUpTo 2147483647) wideBuffer
       = Inr (wavHeader wideBuffer @ wavData wideBuffer)
   \<and> getUint16 (wavHeader wideBuffer @ wavData wideBuffer) 32 = 0
   \<and> 4294967296 \<le> length_buf longBuffer * numberOfChannels longBuffer * 2
   \<and> bufferToWav (allocatesUpTo maxByteLength) longBuffer
       = Inr (wavHeader longBuffer @ wavData longBuffer)
   \<and> getUint32 (wavHeader longBuffer @ wavData longBuffer) 40 = 0"
proof -
  have "getUint16 (wavHeader wideBuffer @ wavData wideBuffer) 32 = 0"
    by (simp add: header_uint16) (simp add: wideBuffer_def)
  moreover have "getUint32 (wavHeader longBuffer @ wavData longBuffer) 40 = 0"
    by (simp add: header_uint32 dataBytes_def) (simp add: longBuffer_def)
  moreover have "65536 \<le> numberOfChannels wideBuffer * 2"
    by (simp add: wideBuffer_def)
  moreover have "4294967296 \<le> length_buf longBuffer * numberOfChannels longBuffer * 2"
    by (simp add: longBuffer_def)
  moreover have "bufferToWav (allocatesUpTo 2147483647) wideBuffer
       = Inr (wavHeader wideBuffer @ wavData wideBuffer)"
    by (rule bufferToWav_eq)
      (simp_all add: wideBuffer_def dataBytes_def maxByteLength_def allocatesUpTo_def)
  moreover have "bufferToWav (allocatesUpTo maxByteLength) longBuffer
       = Inr (wavHeader longBuffer @ wavData longBuffer)"
    by (rule bufferToWav_eq)
      (simp_all add: longBuffer_def dataBytes_def maxByteLength_def allocatesUpTo_def)
  ultimately show ?thesis by blast
qed

section \<open>The claims about the parameters\<close>

text \<open>
  Claim C6, as amended. With \<open>lowerDesc\<close> the lower-cased description: when the text has a
  tempo token, the tempo is the integer of the first one (the leftmost start position),
  whatever else the text says, provided that integer is at most \<open>2 ^ 53\<close>, so that the
  double \<open>parseInt\<close> returns is the integer itself; when it has none, the tempo is 140 if
  the text contains fast or upbeat, otherwise 80 if it contains slow, otherwise 120. A
  text with a token has a first one.
\<close>

theorem tempo_rule:
  "(\<forall>pre rest ds. lowerDesc = pre @ rest \<and> bpmTokenAt rest ds
        \<and> (\<forall>i<length pre. \<forall>g. \<not> bpmTokenAt (drop i lowerDesc) g)
        \<and> parseInt10 ds \<le> maxExactInteger
      \<longrightarrow> bpm lowerDesc = parseInt10 ds)
   \<and> ((\<exists>i g. bpmTokenAt (drop i lowerDesc) g)
      \<longrightarrow> (\<exists>pre rest ds. lowerDesc = pre @ rest \<and> bpmTokenAt rest ds
             \<and> (\<forall>i<length pre. \<forall>g. \<not> bpmTokenAt (drop i lowerDesc) g)))
   \<and> ((\<forall>i g. \<not> bpmTokenAt (drop i lowerDesc) g)
      \<longrightarrow> bpm lowerDesc =
            (if includesStr lowerDesc ''fast'' \<or> includesStr lowerDesc ''upbeat'' then 140
             else if includesStr lowerDesc ''slow'' then 80 else 120))"
proof (intro conjI allI impI)
  fix pre rest ds
  assume "lowerDesc = pre @ rest \<and> bpmTokenAt rest ds
        \<and> (\<forall>i<length pre. \<forall>g. \<not> bpmTokenAt (drop i lowerDesc) g)
        \<and> parseInt10 ds \<le> maxExactInteger"
  then show "bpm lowerDesc = parseInt10 ds"
    using bpm_first_token [of rest ds pre] by blast
next
  assume "\<exists>i g. bpmTokenAt (drop i lowerDesc) g"
  then show "\<exists>pre rest ds. lowerDesc = pre @ rest \<and> bpmTokenAt rest ds
             \<and> (\<forall>i<length pre. \<forall>g. \<not> bpmTokenAt (drop i lowerDesc) g)"
    using first_token_exists by blast
next
  assume "\<forall>i g. \<not> bpmTokenAt (drop i lowerDesc) g"
  then have "bpmMatch lowerDesc = None" by (simp add: bpmMatch_None_token)
  then show "bpm lowerDesc =
            (if includesStr lowerDesc ''fast'' \<or> includesStr lowerDesc ''upbeat'' then 140
             else if includesStr lowerDesc ''slow'' then 80 else 120)"
    by (rule bpm_no_match)
qed

theorem tempo_rule_witness:
  "bpm (toLowerCase ''Slow, 90 BPM'') = 90 \<and> bpm (toLowerCase ''Fast and slow'') = 140
   \<and> bpm (toLowerCase ''Slow'') = 80 \<and> bpm (toLowerCase ''calm'') = 120"
proof -
  have l: "toLowerCase ''Slow, 90 BPM'' = ''slow, '' @ ''90 bpm''"
    "toLowerCase ''Fast and slow'' = ''fast and slow''"
    "toLowerCase ''Slow'' = ''slow''" "toLowerCase ''calm'' = ''calm''"
    by code_simp+
  have "matchBpmAt ''90 bpm'' = Some ''90''" by code_simp
  then have t: "bpmTokenAt ''90 bpm'' ''90''" by (simp only: matchBpmAt_token)
  have "noTokenBefore (''slow, '' @ ''90 bpm'') (length ''slow, '')" by code_simp
  then have n: "\<forall>i<length ''slow, ''. \<forall>g. \<not> bpmTokenAt (drop i (''slow, '' @ ''90 bpm'')) g"
    by (simp only: noTokenBefore_iff)
  have p: "parseInt10 ''90'' = 90" by code_simp
  have q: "parseInt10 ''90'' \<le> maxExactInteger" by (simp add: p maxExactInteger_def)
  have a: "bpm (''slow, '' @ ''90 bpm'') = 90"
    using tempo_rule [of "''slow, '' @ ''90 bpm''"] t n p q by metis
  have m: "bpmMatch ''fast and slow'' = None" "bpmMatch ''slow'' = None"
    "bpmMatch ''calm'' = None"
    by code_simp+
  have z: "\<forall>i g. \<not> bpmTokenAt (drop i ''fast and slow'') g"
    "\<forall>i g. \<not> bpmTokenAt (drop i ''slow'') g" "\<forall>i g. \<not> bpmTokenAt (drop i ''calm'') g"
    using m bpmMatch_None_token by blast+
  have i: "includesStr ''fast and slow'' ''fast''" "includesStr ''slow'' ''slow''"
    "\<not> includesStr ''slow'' ''fast''" "\<not> includesStr ''slow'' ''upbeat''"
    "\<not> includesStr ''calm'' ''fast''" "\<not> includesStr ''calm'' ''upbeat''"
    "\<not> includesStr ''calm'' ''slow''"
    by code_simp+
  have b: "bpm ''fast and slow'' = 140"
    using tempo_rule [of "''fast and slow''"] z(1) i(1) by presburger
  have c: "bpm ''slow'' = 80"
    using tempo_rule [of "''slow''"] z(2) i(2,3,4) by presburger
  have d: "bpm ''calm'' = 120"
    using tempo_rule [of "''calm''"] z(3) i(5,6,7) by presburger
  show ?thesis by (simp only: l a b c d)
qed

text \<open>
  The claim as stated puts slow before fast. A text without a token that contains both
  gets 140, not 80.
\<close>

theorem tempo_slow_fast_counterexample:
  "bpmMatch (toLowerCase ''Slow and fast'') = None
   \<and> includesStr (toLowerCase ''Slow and fast'') ''slow''
   \<and> bpm (toLowerCase ''Slow and fast'') \<noteq> 80
   \<and> bpm (toLowerCase ''Slow and fast'') = 140"
  by code_simp

text \<open>
  Claim C7. The scale is the major scale by default, the minor scale if the text contains
  minor, the dissonant scale if it contains dissonant or atonal (over minor), and the
  pentatonic scale if it contains pentatonic (over all the others): the later assignment
  of the source wins.
\<close>

theorem scale_precedence:
  "scale lowerDesc =
     (if includesStr lowerDesc ''pentatonic'' then [0, 2, 4, 7, 9]
      else if includesStr lowerDesc ''dissonant'' \<or> includesStr lowerDesc ''atonal''
        then [0, 1, 4, 5, 8, 9]
      else if includesStr lowerDesc ''minor'' then [0, 2, 3, 5, 7, 8, 10]
      else [0, 2, 4, 5, 7, 9, 11])"
  by (simp add: scale_def)

theorem scale_precedence_witness:
  "scale (toLowerCase ''Calm'') = [0, 2, 4, 5, 7, 9, 11]
   \<and> scale (toLowerCase ''A minor key'') = [0, 2, 3, 5, 7, 8, 10]
   \<and> scale (toLowerCase ''Dissonant, in a minor key'') = [0, 1, 4, 5, 8, 9]
   \<and> scale (toLowerCase ''Atonal'') = [0, 1, 4, 5, 8, 9]
   \<and> scale (toLowerCase ''Minor pentatonic, atonal at times'') = [0, 2, 4, 7, 9]"
proof -
  have l: "toLowerCase ''Calm'' = ''calm''" "toLowerCase ''A minor key'' = ''a minor key''"
    "toLowerCase ''Dissonant, in a minor key'' = ''dissonant, in a minor key''"
    "toLowerCase ''Atonal'' = ''atonal''"
    "toLowerCase ''Minor pentatonic, atonal at times'' = ''minor pentatonic, atonal at times''"
    by code_simp+
  have i: "\<not> includesStr ''calm'' ''pentatonic''" "\<not> includesStr ''calm'' ''dissonant''"
    "\<not> includesStr ''calm'' ''atonal''" "\<not> includesStr ''calm'' ''minor''"
    "\<not> includesStr ''a minor key'' ''pentatonic''" "\<not> includesStr ''a minor key'' ''dissonant''"
    "\<not> includesStr ''a minor key'' ''atonal''" "includesStr ''a minor key'' ''minor''"
    "\<not> includesStr ''dissonant, in a minor key'' ''pentatonic''"
    "includesStr ''dissonant, in a minor key'' ''dissonant''"
    "\<not> includesStr ''atonal'' ''pentatonic''" "includesStr ''atonal'' ''atonal''"
    "includesStr ''minor pentatonic, atonal at times'' ''pentatonic''"
    by code_simp+
  show ?thesis
    using scale_precedence [of "''calm''"] scale_precedence [of "''a minor key''"]
      scale_precedence [of "''dissonant, in a minor key''"] scale_precedence [of "''atonal''"]
      scale_precedence [of "''minor pentatonic, atonal at times''"]
    by (simp only: l i if_True if_False simp_thms)
qed

text \<open>
  Claim C8. The chord progression has exactly 4 chords of exactly 3 offsets each; it is the
  minor progression if and only if the text contains minor, and the major progression
  otherwise.
\<close>

theorem chord_progression_shape:
  "length (chordProgression lowerDesc) = 4
   \<and> list_all (\<lambda>chord. length chord = 3) (chordProgression lowerDesc)
   \<and> (chordProgression lowerDesc = [[0, 3, 7], [8, 0, 3], [3, 7, 10], [10, 2, 5]]
        \<longleftrightarrow> includesStr lowerDesc ''minor'')
   \<and> (chordProgression lowerDesc = [[0, 4, 7], [7, 11, 2], [9, 0, 4], [5, 9, 0]]
        \<longleftrightarrow> \<not> includesStr lowerDesc ''minor'')"
  by (simp add: chordProgression_def isMinor_def)

theorem chord_progression_shape_witness:
  "chordProgression (toLowerCase ''A Minor key'') = [[0, 3, 7], [8, 0, 3], [3, 7, 10], [10, 2, 5]]
   \<and> chordProgression (toLowerCase ''Calm'') = [[0, 4, 7], [7, 11, 2], [9, 0, 4], [5, 9, 0]]"
proof -
  have l: "toLowerCase ''Calm'' = ''calm''" "toLowerCase ''A Minor key'' = ''a minor key''"
    by code_simp+
  have i: "includesStr ''a minor key'' ''minor''" "\<not> includesStr ''calm'' ''minor''"
    by code_simp+
  show ?thesis
    using chord_progression_shape [of "''a minor key''"] chord_progression_shape [of "''calm''"] i
    unfolding l by blast
qed

text \<open>
  Claim C2, as amended. The example description parses to a tempo of 60, reverb and delay
  enabled, the dissonant scale, the melody, bass and harmony layers enabled, and the
  drums enabled: the text contains drum, in ``No drums''.
\<close>

theorem example_parse:
  "bpm (toLowerCase exampleDescription) = 60
   \<and> enableDrums (toLowerCase exampleDescription)
   \<and> enableReverb (toLowerCase exampleDescription)
   \<and> enableDelay (toLowerCase exampleDescription)
   \<and> scale (toLowerCase exampleDescription) = [0, 1, 4, 5, 8, 9]
   \<and> enableMelody (toLowerCase exampleDescription)
   \<and> enableBass (toLowerCase exampleDescription)
   \<and> enableHarmony (toLowerCase exampleDescription)"
  unfolding exampleDescription_def by code_simp

text \<open>The claim as stated, with the drums disabled, fails on the example.\<close>

theorem example_drums_counterexample:
  "\<not> (bpm (toLowerCase exampleDescription) = 60
      \<and> enableDrums (toLowerCase exampleDescription) = False
      \<and> enableReverb (toLowerCase exampleDescription) = True
      \<and> enableDelay (toLowerCase exampleDescription) = True
      \<and> scale (toLowerCase exampleDescription) = [0, 1, 4, 5, 8, 9]
      \<and> enableMelody (toLowerCase exampleDescription)
      \<and> enableBass (toLowerCase exampleDescription)
      \<and> enableHarmony (toLowerCase exampleDescription))"
proof -
  have "enableDrums (toLowerCase exampleDescription)"
    unfolding exampleDescription_def by code_simp
  then show ?thesis by simp
qed

section \<open>The claims about the layers\<close>

text \<open>
  Claim C3, as amended. In the harmony layer every chord note is rendered by exactly 3
  oscillators, all with detune 0, when the text does not contain string, and by exactly 2
  oscillators, detuned by -5 and +5, when it does (the middle one of the trio is skipped).
  For a tempo other than 0 the layer is made of these groups, one per note of the 4
  chords: 36 or 24 oscillators.
\<close>

theorem harmony_oscillators_per_note:
  "length (harmonyNote lowerDesc bd scale0 time noteOffset)
     = (if includesStr lowerDesc ''string'' then 2 else 3)
   \<and> map detune (harmonyNote lowerDesc bd scale0 time noteOffset)
     = (if includesStr lowerDesc ''string'' then [- 5, 5] else [0, 0, 0])
   \<and> (bpm lowerDesc \<noteq> 0 \<longrightarrow>
        (\<exists>oscs. createHarmony lowerDesc (chordProgression lowerDesc) (bpm lowerDesc)
                  (scale lowerDesc) = Inr oscs
           \<and> oscs = concat (map (\<lambda>(i, chord).
                  concat (map (harmonyNote lowerDesc (beatDuration (bpm lowerDesc)) 0
                                 (real i * beatDuration (bpm lowerDesc) * 4)) chord))
                (enumerate 0 (chordProgression lowerDesc)))
           \<and> length oscs = 4 * 3 * (if includesStr lowerDesc ''string'' then 2 else 3)))"
proof (intro conjI impI)
  show "length (harmonyNote lowerDesc bd scale0 time noteOffset)
     = (if includesStr lowerDesc ''string'' then 2 else 3)"
    by (rule length_harmonyNote)
  show "map detune (harmonyNote lowerDesc bd scale0 time noteOffset)
     = (if includesStr lowerDesc ''string'' then [- 5, 5] else [0, 0, 0])"
    by (simp add: harmonyNote_string harmonyNote_unison numeral_3_eq_3)
next
  assume b: "bpm lowerDesc \<noteq> 0"
  from length_createHarmony [OF b, of lowerDesc lowerDesc lowerDesc]
  show "\<exists>oscs. createHarmony lowerDesc (chordProgression lowerDesc) (bpm lowerDesc)
                  (scale lowerDesc) = Inr oscs
           \<and> oscs = concat (map (\<lambda>(i, chord).
                  concat (map (harmonyNote lowerDesc (beatDuration (bpm lowerDesc)) 0
                                 (real i * beatDuration (bpm lowerDesc) * 4)) chord))
                (enumerate 0 (chordProgression lowerDesc)))
           \<and> length oscs = 4 * 3 * (if includesStr lowerDesc ''string'' then 2 else 3)"
    by (auto simp: createHarmony_parsed [OF b] harmonyChord_def)
qed

theorem harmony_oscillators_per_note_witness:
  "bpm ''warm pad'' \<noteq> 0
   \<and> (\<exists>oscs. createHarmony ''warm pad'' (chordProgression ''warm pad'') (bpm ''warm pad'')
                 (scale ''warm pad'') = Inr oscs \<and> length oscs = 36)
   \<and> bpm ''string section'' \<noteq> 0
   \<and> (\<exists>oscs. createHarmony ''string section'' (chordProgression ''string section'')
                 (bpm ''string section'') (scale ''string section'') = Inr oscs
         \<and> length oscs = 24)"
proof -
  have b: "bpm ''warm pad'' \<noteq> 0" "bpm ''string section'' \<noteq> 0" by code_simp+
  have i: "\<not> includesStr ''warm pad'' ''string''" "includesStr ''string section'' ''string''"
    by code_simp+
  show ?thesis
    using harmony_oscillators_per_note [of "''warm pad''"]
      harmony_oscillators_per_note [of "''string section''"] b i
    by (simp only: if_True if_False) auto
qed

text \<open>
  The claim as stated, 1 oscillator without string and 3 with it, fails both ways: a note
  of ``warm pad'' has 3 oscillators, a note of ``string section'' has 2.
\<close>

theorem harmony_oscillators_counterexample:
  "\<not> includesStr ''warm pad'' ''string''
   \<and> length (harmonyNote ''warm pad'' (1 / 2) 0 0 4) = 3
   \<and> length (harmonyNote ''warm pad'' (1 / 2) 0 0 4) \<noteq> 1
   \<and> includesStr ''string section'' ''string''
   \<and> map detune (harmonyNote ''string section'' (1 / 2) 0 0 4) = [- 5, 5]
   \<and> length (harmonyNote ''string section'' (1 / 2) 0 0 4) \<noteq> 3"
proof -
  have i: "\<not> includesStr ''warm pad'' ''string''" "includesStr ''string section'' ''string''"
    by code_simp+
  then show ?thesis
    by (simp add: harmonyNote_string harmonyNote_unison)
qed



text \<open>
  Claim C1, as amended. For every description in which the melody layer is disabled, the
  reverb is not connected, and the drums are disabled or in heartbeat mode (no snare), two
  renders build the same graph, whatever \<open>Math.random()\<close> returns; and in any two renders
  of any description that both build a graph, the harmony layer, the bass layer and the
  delay setting are the same. The snare's noise buffer and the reverb's impulse response
  are drawn from \<open>Math.random()\<close>.
\<close>

theorem graph_without_randomness:
  "(\<not> enableMelody (toLowerCase description) \<and> \<not> enableReverb (toLowerCase description)
      \<and> (enableDrums (toLowerCase description)
           \<longrightarrow> includesStr (toLowerCase description) ''heartbeat'')
    \<longrightarrow> generateAudioPreview rng1 description = generateAudioPreview rng2 description)
   \<and> (\<forall>g1 g2. generateAudioPreview rng1 description = Inr g1
          \<and> generateAudioPreview rng2 description = Inr g2
        \<longrightarrow> harmonyLayer g1 = harmonyLayer g2 \<and> bassLayer g1 = bassLayer g2
            \<and> delayLine g1 = delayLine g2)"
proof (intro conjI impI allI)
  assume "\<not> enableMelody (toLowerCase description) \<and> \<not> enableReverb (toLowerCase description)
      \<and> (enableDrums (toLowerCase description)
           \<longrightarrow> includesStr (toLowerCase description) ''heartbeat'')"
  then show "generateAudioPreview rng1 description = generateAudioPreview rng2 description"
    by (intro generateAudioPreview_no_random) simp_all
next
  fix g1 g2
  assume a: "generateAudioPreview rng1 description = Inr g1
          \<and> generateAudioPreview rng2 description = Inr g2"
  from a generateAudioPreview_layers(1) [of rng1 description g1]
    generateAudioPreview_layers(1) [of rng2 description g2]
  show "harmonyLayer g1 = harmonyLayer g2" by simp
  from a generateAudioPreview_layers(2) [of rng1 description g1]
    generateAudioPreview_layers(2) [of rng2 description g2]
  show "bassLayer g1 = bassLayer g2" by simp
  from a generateAudioPreview_layers(3) [of rng1 description g1]
    generateAudioPreview_layers(3) [of rng2 description g2]
  show "delayLine g1 = delayLine g2" by simp
qed

theorem graph_without_randomness_witness:
  "enableDrums (toLowerCase ''Heartbeat, pad and bass'')
   \<and> enableHarmony (toLowerCase ''Heartbeat, pad and bass'')
   \<and> enableBass (toLowerCase ''Heartbeat, pad and bass'')
   \<and> \<not> enableMelody (toLowerCase ''Heartbeat, pad and bass'')
   \<and> generateAudioPreview randomLow ''Heartbeat, pad and bass''
     = generateAudioPreview randomMid ''Heartbeat, pad and bass''
   \<and> (\<exists>g. generateAudioPreview randomLow ''Heartbeat, pad and bass'' = Inr g)
   \<and> (\<exists>g1 g2. generateAudioPreview randomLow ''Drums, pad and bass'' = Inr g1
        \<and> generateAudioPreview randomMid ''Drums, pad and bass'' = Inr g2
        \<and> harmonyLayer g1 = harmonyLayer g2 \<and> bassLayer g1 = bassLayer g2)"
proof -
  let ?h = "''Heartbeat, pad and bass''" and ?d = "''Drums, pad and bass''"
  have f: "enableDrums (toLowerCase ?h)" "enableHarmony (toLowerCase ?h)"
    "enableBass (toLowerCase ?h)" "\<not> enableMelody (toLowerCase ?h)"
    "\<not> enableReverb (toLowerCase ?h)" "includesStr (toLowerCase ?h) ''heartbeat''"
    by code_simp+
  have e: "generateAudioPreview randomLow ?h = generateAudioPreview randomMid ?h"
    using graph_without_randomness [of ?h randomLow randomMid] f by blast
  have "bpm (toLowerCase ?h) \<noteq> 0" by code_simp
  then obtain g where g: "generateAudioPreview randomLow ?h = Inr g"
    using generateAudioPreview_Inr [OF f(4)] by blast
  have m: "\<not> enableMelody (toLowerCase ?d)" "bpm (toLowerCase ?d) \<noteq> 0"
    by code_simp+
  obtain g1 where g1: "generateAudioPreview randomLow ?d = Inr g1"
    using generateAudioPreview_Inr [OF m] by blast
  obtain g2 where g2: "generateAudioPreview randomMid ?d = Inr g2"
    using generateAudioPreview_Inr [OF m] by blast
  have "harmonyLayer g1 = harmonyLayer g2 \<and> bassLayer g1 = bassLayer g2"
    using graph_without_randomness [of ?d randomLow randomMid] g1 g2 by blast
  with f e g g1 g2 show ?thesis by blast
qed

text \<open>
  The claim as stated fails: ``Drums, pad and bass'' enables drums, harmony and bass and
  not the melody, and two renders with different random draws differ in the noise of
  the first snare.
\<close>

theorem snare_noise_counterexample:
  "enableDrums (toLowerCase ''Drums, pad and bass'')
   \<and> enableHarmony (toLowerCase ''Drums, pad and bass'')
   \<and> enableBass (toLowerCase ''Drums, pad and bass'')
   \<and> \<not> enableMelody (toLowerCase ''Drums, pad and bass'')
   \<and> generateAudioPreview randomLow ''Drums, pad and bass''
     \<noteq> generateAudioPreview randomMid ''Drums, pad and bass''"
proof -
  let ?d = "''Drums, pad and bass''"
  let ?k = "2 * (2 * sampleRate)"
  have f: "enableDrums (toLowerCase ?d)" "enableHarmony (toLowerCase ?d)"
    "enableBass (toLowerCase ?d)" "\<not> enableMelody (toLowerCase ?d)"
    "\<not> includesStr (toLowerCase ?d) ''heartbeat''"
    by code_simp+
  have b: "bpm (toLowerCase ?d) = 120" by code_simp
  then have b0: "bpm (toLowerCase ?d) \<noteq> 0" by simp
  obtain g1 where g1: "generateAudioPreview randomLow ?d = Inr g1"
    using generateAudioPreview_Inr [OF f(4) b0] by blast
  obtain g2 where g2: "generateAudioPreview randomMid ?d = Inr g2"
    using generateAudioPreview_Inr [OF f(4) b0] by blast
  have d1: "drumsLayer g1 = Some (fst (createDrums randomLow (toLowerCase ?d) 120 ?k))"
    using generateAudioPreview_layers(4) [OF g1] f(1) b by simp
  have d2: "drumsLayer g2 = Some (fst (createDrums randomMid (toLowerCase ?d) 120 ?k))"
    using generateAudioPreview_layers(4) [OF g2] f(1) b by simp
  have "g1 \<noteq> g2"
  proof
    assume "g1 = g2"
    with d1 d2 have "fst (createDrums randomLow (toLowerCase ?d) 120 ?k) ! 1
                     = fst (createDrums randomMid (toLowerCase ?d) 120 ?k) ! 1"
      by simp
    then have "map (\<lambda>j. randomLow (?k + j) * 2 - 1) [0..<snareLength]
               = map (\<lambda>j. randomMid (?k + j) * 2 - 1) [0..<snareLength]"
      by (simp only: createDrums_second [OF f(5)] DrumHit.inject)
    then have "\<forall>j \<in> set [0..<snareLength]. randomLow (?k + j) * 2 - 1 = randomMid (?k + j) * 2 - 1"
      by (simp only: map_eq_conv)
    moreover have "0 \<in> set [0..<snareLength]" by (simp add: snareLength_def)
    ultimately have "randomLow (?k + 0) * 2 - 1 = randomMid (?k + 0) * 2 - 1" by blast
    then show False by (simp add: randomLow_def randomMid_def)
  qed
  with g1 g2 f show ?thesis by simp
qed

end
